theory Spec2Isabelle
  imports Complex_Main "HOL-Library.Monad_Syntax" "HOL-Library.Sublist"
begin

section \<open>Decoded JSON values\<close>

text \<open>
  \<^verbatim>\<open>getDailyEvents\<close> decodes the response body with \<^verbatim>\<open>json.Unmarshal\<close> into
  \<^verbatim>\<open>[]map[string]interface{}\<close>. A value held in an \<^verbatim>\<open>interface{}\<close> after decoding is
  \<^verbatim>\<open>nil\<close>, a \<^verbatim>\<open>bool\<close>, a \<^verbatim>\<open>float64\<close>, a \<^verbatim>\<open>string\<close>, a \<^verbatim>\<open>[]interface{}\<close> or a
  \<^verbatim>\<open>map[string]interface{}\<close>. The program never inspects a number, so a number is carried
  as a real. An event is one such map.
\<close>

datatype json =
    JNull
  | JBool bool
  | JNumber real
  | JString string
  | JArray "json list"
  | JObject "string \<rightharpoonup> json"

type_synonym event = "string \<rightharpoonup> json"

text \<open>\<^verbatim>\<open>m[k]\<close> on a Go map: the zero value (\<^verbatim>\<open>nil\<close>) when the key is missing.\<close>

definition mapIndex :: "(string \<rightharpoonup> json) \<Rightarrow> string \<Rightarrow> json" where
  "mapIndex m k = (case m k of None \<Rightarrow> JNull | Some v \<Rightarrow> v)"

text \<open>
  \<^verbatim>\<open>v, ok = x.(string)\<close> and \<^verbatim>\<open>v, ok = x.(bool)\<close>: the two-result form never panics and
  gives the zero value with \<^verbatim>\<open>ok = false\<close> when \<^verbatim>\<open>x\<close> holds anything else.
\<close>

fun assertString :: "json \<Rightarrow> string \<times> bool" where
  "assertString (JString s) = (s, True)"
| "assertString _ = ('''', False)"

fun assertBool :: "json \<Rightarrow> bool \<times> bool" where
  "assertBool (JBool b) = (b, True)"
| "assertBool _ = (False, False)"

text \<open>
  \<^verbatim>\<open>x.(map[string]interface{})\<close> in the one-result form, as \<^verbatim>\<open>formatEvents\<close> uses it on
  \<^verbatim>\<open>payload\<close>, \<^verbatim>\<open>pull_request\<close>, \<^verbatim>\<open>user\<close> and \<^verbatim>\<open>review\<close>: a run-time panic (here
  \<open>None\<close>) when \<^verbatim>\<open>x\<close> is \<^verbatim>\<open>nil\<close> or holds anything but a map.
\<close>

fun assertMap :: "json \<Rightarrow> (string \<rightharpoonup> json) option" where
  "assertMap (JObject m) = Some m"
| "assertMap _ = None"

section \<open>Time values and the two layouts\<close>

text \<open>
  A \<^verbatim>\<open>time.Time\<close> is an instant together with a location; \<^verbatim>\<open>Format\<close> prints the wall
  clock of the instant in that location. The record holds that wall clock and the
  location's offset from UTC in seconds (east positive).
\<close>

record Time =
  year :: int
  month :: nat
  day :: nat
  hour :: nat
  minute :: nat
  second :: nat
  nsec :: nat
  zoneOffset :: int

definition digitChar :: "nat \<Rightarrow> char" where
  "digitChar d = ''0123456789'' ! (d mod 10)"

fun decimal :: "nat \<Rightarrow> string" where
  "decimal u = (if u < 10 then [digitChar u] else decimal (u div 10) @ [digitChar (u mod 10)])"

declare decimal.simps [simp del]

text \<open>\<^verbatim>\<open>appendInt(b, x, width)\<close> of package time: a sign, zero padding up to the width, the digits.\<close>

definition appendInt :: "int \<Rightarrow> nat \<Rightarrow> string" where
  "appendInt x width =
     (let ds = decimal (nat \<bar>x\<bar>)
      in (if x < 0 then ''-'' else '''') @ replicate (width - length ds) (CHR ''0'') @ ds)"

definition shortMonthNames :: "string list" where
  "shortMonthNames =
     [''Jan'', ''Feb'', ''Mar'', ''Apr'', ''May'', ''Jun'',
      ''Jul'', ''Aug'', ''Sep'', ''Oct'', ''Nov'', ''Dec'']"

text \<open>
  The layout element \<^verbatim>\<open>Jan\<close>: the first three bytes of \<^verbatim>\<open>Month.String()\<close>, which for a
  month outside 1..12 is a string starting \<^verbatim>\<open>%!Month(\<close>.
\<close>

definition monthAbbrev :: "nat \<Rightarrow> string" where
  "monthAbbrev m = (if 1 \<le> m \<and> m \<le> 12 then shortMonthNames ! (m - 1) else ''%!M'')"

text \<open>\<^verbatim>\<open>t.Format(dateFormat)\<close> with \<^verbatim>\<open>dateFormat = "2006-01-02"\<close>.\<close>

definition Format_dateFormat :: "Time \<Rightarrow> string" where
  "Format_dateFormat t =
     appendInt (year t) 4 @ ''-'' @ appendInt (int (month t)) 2 @ ''-'' @ appendInt (int (day t)) 2"

text \<open>\<^verbatim>\<open>t.Format("Jan 02, 2006")\<close>.\<close>

definition Format_Jan_02_2006 :: "Time \<Rightarrow> string" where
  "Format_Jan_02_2006 t =
     monthAbbrev (month t) @ '' '' @ appendInt (int (day t)) 2 @ '', '' @ appendInt (year t) 4"

section \<open>Parsing a timestamp\<close>

text \<open>
  \<^verbatim>\<open>time.Parse(time.RFC3339, createdAt)\<close> of the Go library, as of Go 1.20: for the
  layout RFC3339 the library first reads the value with \<^verbatim>\<open>parseRFC3339\<close>, which wants
  fixed positions for the date and the time of day, an optional fraction, then \<^verbatim>\<open>Z\<close> or
  a signed \<^verbatim>\<open>hh:mm\<close> offset; a value that this function refuses goes to the general
  parser. Both are embedded here, and \<open>Parse_RFC3339\<close> below is the call.
\<close>

subsection \<open>The function for RFC 3339\<close>

definition isDigit :: "char \<Rightarrow> bool" where
  "isDigit c = ((48::nat) \<le> of_char c \<and> (of_char c :: nat) \<le> 57)"

fun digitsValue :: "string \<Rightarrow> nat \<Rightarrow> nat option" where
  "digitsValue [] x = Some x"
| "digitsValue (c # cs) x =
     (if isDigit c then digitsValue cs (x * 10 + (of_char c - 48)) else None)"

definition parseUint :: "string \<Rightarrow> nat \<Rightarrow> nat \<Rightarrow> nat option" where
  "parseUint s lo hi =
     (case digitsValue s 0 of
        None \<Rightarrow> None
      | Some x \<Rightarrow> if x < lo \<or> hi < x then None else Some x)"

text \<open>The slice \<^verbatim>\<open>s[i:j]\<close>, used only within the length of \<open>s\<close>.\<close>

definition slice :: "string \<Rightarrow> nat \<Rightarrow> nat \<Rightarrow> string" where
  "slice s i j = take (j - i) (drop i s)"

definition isLeap :: "int \<Rightarrow> bool" where
  "isLeap y = (y mod 4 = 0 \<and> (y mod 400 = 0 \<or> y mod 100 \<noteq> 0))"

definition daysIn :: "nat \<Rightarrow> int \<Rightarrow> nat" where
  "daysIn m y =
     (if m = 2 \<and> isLeap y then 29
      else if 1 \<le> m \<and> m \<le> 12
           then [31, 28, 31, 30, 31, 30, 31, 31, 30, 31, 30, 31] ! (m - 1)
           else 0)"

text \<open>
  The fraction: a period and at least one digit, then every digit that follows; the
  first nine digits count, scaled to nanoseconds. The result is the value and the rest
  of the string.
\<close>

definition parseFraction :: "string \<Rightarrow> nat \<times> string" where
  "parseFraction r =
     (if 2 \<le> length r \<and> r ! 0 = CHR ''.'' \<and> isDigit (r ! 1) then
        let ds = takeWhile isDigit (tl r);
            ds9 = take 9 ds
        in (foldl (\<lambda>x c. x * 10 + (of_char c - 48)) 0 ds9 * 10 ^ (9 - length ds9),
            drop (1 + length ds) r)
      else (0, r))"

text \<open>The zone: \<^verbatim>\<open>Z\<close>, or a sign, two digits, a colon and two digits. Seconds east of UTC.\<close>

definition parseZone :: "string \<Rightarrow> int option" where
  "parseZone r =
     (if length r = 1 \<and> r ! 0 = CHR ''Z'' then Some 0
      else if length r \<noteq> 6 then None
      else do {
        hr \<leftarrow> parseUint (slice r 1 3) 0 23;
        mm \<leftarrow> parseUint (slice r 4 6) 0 59;
        if \<not> ((r ! 0 = CHR ''-'' \<or> r ! 0 = CHR ''+'') \<and> r ! 3 = CHR '':'') then None
        else Some (if r ! 0 = CHR ''-'' then - int ((hr * 60 + mm) * 60)
                   else int ((hr * 60 + mm) * 60))
      })"

text \<open>
  The library builds the instant from the fields read as UTC, moves it back by the
  offset and attaches a location with that offset, so the wall clock of the result in
  its own location is the fields as they were read.
\<close>

definition parseRFC3339 :: "string \<Rightarrow> Time option" where
  "parseRFC3339 s =
     (if length s < 19 then None
      else do {
        y \<leftarrow> parseUint (slice s 0 4) 0 9999;
        mo \<leftarrow> parseUint (slice s 5 7) 1 12;
        d \<leftarrow> parseUint (slice s 8 10) 1 (daysIn mo (int y));
        h \<leftarrow> parseUint (slice s 11 13) 0 23;
        mi \<leftarrow> parseUint (slice s 14 16) 0 59;
        se \<leftarrow> parseUint (slice s 17 19) 0 59;
        if \<not> (s ! 4 = CHR ''-'' \<and> s ! 7 = CHR ''-'' \<and> s ! 10 = CHR ''T''
                \<and> s ! 13 = CHR '':'' \<and> s ! 16 = CHR '':'') then None
        else do {
          off \<leftarrow> parseZone (snd (parseFraction (drop 19 s)));
          Some \<lparr>year = int y, month = mo, day = d, hour = h, minute = mi, second = se,
                nsec = fst (parseFraction (drop 19 s)), zoneOffset = off\<rparr>
        }
      })"

subsection \<open>The general parser\<close>

text \<open>
  When \<^verbatim>\<open>parseRFC3339\<close> refuses the value, \<^verbatim>\<open>time.Parse\<close> runs the general parser
  \<^verbatim>\<open>parse(layout, value, UTC, Local)\<close>. What follows is that parser for the one layout the
  program passes, \<^verbatim>\<open>2006-01-02T15:04:05Z07:00\<close>, whose elements are a four-digit year, a
  two-digit month and day, the hour, a two-digit minute and second and the zone, with the
  literal prefixes \<^verbatim>\<open>-\<close>, \<^verbatim>\<open>-\<close>, \<^verbatim>\<open>T\<close>, \<^verbatim>\<open>:\<close> and \<^verbatim>\<open>:\<close> between them. It is more
  liberal than \<^verbatim>\<open>parseRFC3339\<close>: the hour may have one digit, the fraction may follow a
  comma, and the zone offset may be as large as 24 hours and 60 minutes. Every error of
  the parser is \<open>None\<close>: the program only tests \<^verbatim>\<open>err == nil\<close>.
\<close>

text \<open>\<^verbatim>\<open>isDigit(s, i)\<close>: false past the end of the string.\<close>

definition isDigitAt :: "string \<Rightarrow> nat \<Rightarrow> bool" where
  "isDigitAt s i = (i < length s \<and> isDigit (s ! i))"

text \<open>
  \<^verbatim>\<open>getnum(s, fixed)\<close>: one or two leading digits as a number, and the rest of the string;
  with \<open>fixed\<close> there must be two.
\<close>

definition getnum :: "string \<Rightarrow> bool \<Rightarrow> (nat \<times> string) option" where
  "getnum s fixed =
     (if \<not> isDigitAt s 0 then None
      else if \<not> isDigitAt s 1 then
        (if fixed then None else Some (of_char (s ! 0) - 48, drop 1 s))
      else Some ((of_char (s ! 0) - 48) * 10 + (of_char (s ! 1) - 48), drop 2 s))"

text \<open>
  \<^verbatim>\<open>skip(value, prefix)\<close>: the value behind the literal prefix. The branch of the library
  for a space in the prefix is left out, the prefixes of this layout having none.
\<close>

fun skip :: "string \<Rightarrow> string \<Rightarrow> string option" where
  "skip val [] = Some val"
| "skip [] (p # ps) = None"
| "skip (v # val) (p # ps) = (if v \<noteq> p then None else skip val ps)"

text \<open>
  \<^verbatim>\<open>atoi\<close> on a string that starts with a digit, as both of its calls here do: the value
  when every character is a digit. Its branch for a sign is not reached.
\<close>

definition atoi :: "string \<Rightarrow> nat option" where
  "atoi s = digitsValue s 0"

definition commaOrPeriod :: "char \<Rightarrow> bool" where
  "commaOrPeriod c = (c = CHR ''.'' \<or> c = CHR '','')"

text \<open>
  The special case after the seconds: a fraction in the value although the layout has
  none. A period or a comma and at least one digit, then every digit that follows; the
  first nine digits count (\<^verbatim>\<open>parseNanoseconds\<close>).
\<close>

definition fractionalSecond :: "string \<Rightarrow> nat \<times> string" where
  "fractionalSecond v =
     (if 2 \<le> length v \<and> commaOrPeriod (v ! 0) \<and> isDigitAt v 1 then
        let ds = takeWhile isDigit (tl v);
            ds9 = take 9 ds
        in (foldl (\<lambda>x c. x * 10 + (of_char c - 48)) 0 ds9 * 10 ^ (9 - length ds9),
            drop (1 + length ds) v)
      else (0, v))"

text \<open>
  The layout element \<^verbatim>\<open>Z07:00\<close>: \<^verbatim>\<open>Z\<close>, or a sign, two digits, a colon and two digits,
  the hours at most 24 and the minutes at most 60. The offset in seconds east of UTC, and
  the rest of the value.
\<close>

definition zoneISO8601Colon :: "string \<Rightarrow> (int \<times> string) option" where
  "zoneISO8601Colon v =
     (if 1 \<le> length v \<and> v ! 0 = CHR ''Z'' then Some (0, drop 1 v)
      else if length v < 6 then None
      else if v ! 3 \<noteq> CHR '':'' then None
      else do {
        (hr, r1) \<leftarrow> getnum (slice v 1 3) True;
        (mm, r2) \<leftarrow> getnum (slice v 4 6) True;
        if 24 < hr \<or> 60 < mm then None
        else if v ! 0 = CHR ''+'' then Some (int ((hr * 60 + mm) * 60), drop 6 v)
        else if v ! 0 = CHR ''-'' then Some (- int ((hr * 60 + mm) * 60), drop 6 v)
        else None
      })"

definition require :: "bool \<Rightarrow> unit option" where
  "require b = (if b then Some () else None)"

text \<open>
  The loop of the parser over the elements of the layout, then the test that nothing of
  the value is left and the validation of the day of the month. As in
  \<^verbatim>\<open>parseRFC3339\<close>, the wall clock of the result in its own location is the fields read.
\<close>

definition parseGeneral :: "string \<Rightarrow> Time option" where
  "parseGeneral s =
     (if length s < 4 \<or> \<not> isDigitAt s 0 then None
      else do {
        y \<leftarrow> atoi (take 4 s);
        v1 \<leftarrow> skip (drop 4 s) ''-'';
        (mo, v2) \<leftarrow> getnum v1 True;
        require (1 \<le> mo \<and> mo \<le> 12);
        v3 \<leftarrow> skip v2 ''-'';
        (d, v4) \<leftarrow> getnum v3 True;
        v5 \<leftarrow> skip v4 ''T'';
        (h, v6) \<leftarrow> getnum v5 False;
        require (h < 24);
        v7 \<leftarrow> skip v6 '':'';
        (mi, v8) \<leftarrow> getnum v7 True;
        require (mi < 60);
        v9 \<leftarrow> skip v8 '':'';
        (se, v10) \<leftarrow> getnum v9 True;
        require (se < 60);
        (off, rest) \<leftarrow> zoneISO8601Colon (snd (fractionalSecond v10));
        require (rest = []);
        require (1 \<le> d \<and> d \<le> daysIn mo (int y));
        Some \<lparr>year = int y, month = mo, day = d, hour = h, minute = mi, second = se,
              nsec = fst (fractionalSecond v10), zoneOffset = off\<rparr>
      })"

text \<open>
  \<^verbatim>\<open>time.Parse(time.RFC3339, value)\<close>: the result of \<^verbatim>\<open>parseRFC3339\<close> when it accepts the
  value, that of the general parser otherwise.
\<close>

definition Parse_RFC3339 :: "string \<Rightarrow> Time option" where
  "Parse_RFC3339 val =
     (case parseRFC3339 val of Some t \<Rightarrow> Some t | None \<Rightarrow> parseGeneral val)"

section \<open>getDailyEvents\<close>

text \<open>
  The test of the loop in \<^verbatim>\<open>getDailyEvents\<close>: \<^verbatim>\<open>created_at\<close> is a string, it parses, and
  the parsed time printed with \<^verbatim>\<open>dateFormat\<close> is \<open>date\<close>.
\<close>

definition createdOn :: "string \<Rightarrow> event \<Rightarrow> bool" where
  "createdOn date event =
     (case assertString (mapIndex event ''created_at'') of
        (createdAt, False) \<Rightarrow> False
      | (createdAt, True) \<Rightarrow>
          (case Parse_RFC3339 createdAt of
             None \<Rightarrow> False
           | Some startTime \<Rightarrow> Format_dateFormat startTime = date))"

fun dailyLoop :: "string \<Rightarrow> event list \<Rightarrow> event list \<Rightarrow> event list" where
  "dailyLoop date [] dailyEvents = dailyEvents"
| "dailyLoop date (event # events) dailyEvents =
     dailyLoop date events (if createdOn date event then dailyEvents @ [event] else dailyEvents)"

text \<open>
  \<^verbatim>\<open>getDailyEvents\<close> from the decoded body on: \<open>events\<close> is what \<^verbatim>\<open>parseJSON\<close> stored.
  The request and the decoding before it are outside the model; when they fail the
  function returns their error and the loop never runs.
\<close>

definition getDailyEvents :: "string \<Rightarrow> event list \<Rightarrow> event list" where
  "getDailyEvents date events = dailyLoop date events []"

section \<open>formatEvents\<close>

text \<open>
  The source text is UTF-8 and a Go string is its bytes: the bullet U+2022 is the three
  bytes E2 80 A2.
\<close>

definition bullet :: string where
  "bullet = [CHR 0xE2, CHR 0x80, CHR 0xA2]"

definition newline :: string where
  "newline = [CHR 0x0A]"

text \<open>The local variables of the loop body that the two \<^verbatim>\<open>case\<close> arms assign.\<close>

record locals =
  prTitle :: string
  action :: string
  author :: string
  merged :: bool

text \<open>
  The arm \<^verbatim>\<open>case "PullRequestEvent"\<close>. Each of its four statements asserts the maps on its
  path again; an assertion of the same value gives the same result, so each map is bound
  once here, in the order in which the statements first reach it.
\<close>

definition pullRequestEventArm :: "event \<Rightarrow> locals option" where
  "pullRequestEventArm event = do {
     payload \<leftarrow> assertMap (mapIndex event ''payload'');
     let a = fst (assertString (mapIndex payload ''action''));
     pull_request \<leftarrow> assertMap (mapIndex payload ''pull_request'');
     let m = fst (assertBool (mapIndex pull_request ''merged''));
     let t = fst (assertString (mapIndex pull_request ''title''));
     user \<leftarrow> assertMap (mapIndex pull_request ''user'');
     let au = fst (assertString (mapIndex user ''login''));
     Some \<lparr>prTitle = t, action = a, author = au, merged = m\<rparr>
   }"

text \<open>The arm \<^verbatim>\<open>case "PullRequestReviewEvent"\<close>: the author is the reviewer's login.\<close>

definition pullRequestReviewEventArm :: "event \<Rightarrow> locals option" where
  "pullRequestReviewEventArm event = do {
     payload \<leftarrow> assertMap (mapIndex event ''payload'');
     let a = fst (assertString (mapIndex payload ''action''));
     pull_request \<leftarrow> assertMap (mapIndex payload ''pull_request'');
     let m = fst (assertBool (mapIndex pull_request ''merged''));
     let t = fst (assertString (mapIndex pull_request ''title''));
     review \<leftarrow> assertMap (mapIndex payload ''review'');
     user \<leftarrow> assertMap (mapIndex review ''user'');
     let au = fst (assertString (mapIndex user ''login''));
     Some \<lparr>prTitle = t, action = a, author = au, merged = m\<rparr>
   }"

text \<open>
  \<^verbatim>\<open>switch eventType\<close>: with no matching arm the variables keep their zero values.
\<close>

definition switchEventType :: "string \<Rightarrow> event \<Rightarrow> locals option" where
  "switchEventType eventType event =
     (if eventType = ''PullRequestEvent'' then pullRequestEventArm event
      else if eventType = ''PullRequestReviewEvent'' then pullRequestReviewEventArm event
      else Some \<lparr>prTitle = '''', action = '''', author = '''', merged = False\<rparr>)"

text \<open>
  The tagless \<^verbatim>\<open>switch\<close> that assigns \<^verbatim>\<open>status\<close>; \<open>username\<close> is what
  \<^verbatim>\<open>os.Getenv("GITHUB_USERNAME")\<close> returns.
\<close>

definition switchStatus :: "string \<Rightarrow> locals \<Rightarrow> string" where
  "switchStatus username l =
     (if author l = username \<and> action l = ''opened'' \<and> merged l then ''Done''
      else if author l = username \<and> action l = ''opened'' then ''In Review''
      else if author l = username \<and> action l = ''closed'' \<and> merged l then ''Done''
      else if author l = username \<and> merged l then ''Done''
      else if author l \<noteq> username \<and> action l = ''closed'' \<and> merged l then ''Reviewed and merged''
      else if author l \<noteq> username \<and> action l = ''closed'' then ''Reviewed''
      else '''')"

text \<open>\<^verbatim>\<open>fmt.Sprintf("\<bullet> %s | %s\n", status, prTitle)\<close>, the bullet being the three bytes above.\<close>

definition reportLine :: "string \<Rightarrow> string \<Rightarrow> string" where
  "reportLine status title = bullet @ '' '' @ status @ '' | '' @ title @ newline"

text \<open>
  The state of the loop: the report so far and \<^verbatim>\<open>seenTitles\<close>, a \<^verbatim>\<open>map[string]bool\<close>
  whose lookup gives \<^verbatim>\<open>false\<close> for a missing key.
\<close>

type_synonym loopState = "string \<times> (string \<rightharpoonup> bool)"

definition seenLookup :: "(string \<rightharpoonup> bool) \<Rightarrow> string \<Rightarrow> bool" where
  "seenLookup seenTitles k = (case seenTitles k of None \<Rightarrow> False | Some b \<Rightarrow> b)"

text \<open>The part of the loop body from \<^verbatim>\<open>if !seenTitles[prTitle]\<close> on.\<close>

definition checkSeen :: "string \<Rightarrow> locals \<Rightarrow> loopState \<Rightarrow> loopState" where
  "checkSeen username l st =
     (case st of (report, seenTitles) \<Rightarrow>
        if \<not> seenLookup seenTitles (prTitle l) then
          let seenTitles' = seenTitles(prTitle l \<mapsto> True);
              status = switchStatus username l
          in (if status \<noteq> '''' \<and> prTitle l \<noteq> ''''
              then report @ reportLine status (prTitle l) else report,
              seenTitles')
        else (report, seenTitles))"

text \<open>One iteration of \<^verbatim>\<open>for _, event := range events\<close>; \<open>None\<close> is a panic.\<close>

definition loopBody :: "string \<Rightarrow> event \<Rightarrow> loopState \<Rightarrow> loopState option" where
  "loopBody username event st =
     (case assertString (mapIndex event ''type'') of
        (eventType, False) \<Rightarrow> Some st
      | (eventType, True) \<Rightarrow>
          do { l \<leftarrow> switchEventType eventType event; Some (checkSeen username l st) })"

fun eventLoop :: "string \<Rightarrow> event list \<Rightarrow> loopState \<Rightarrow> loopState option" where
  "eventLoop username [] st = Some st"
| "eventLoop username (event # events) st =
     do { st' \<leftarrow> loopBody username event st; eventLoop username events st' }"

definition reportHead :: "Time \<Rightarrow> string" where
  "reportHead now =
     Format_Jan_02_2006 now @ '':'' @ newline
     @ bullet @ '' Done | Attended frail-check meeting'' @ newline
     @ bullet @ '' Done | Attended frail-check followup meeting'' @ newline"

definition reportTail :: string where
  "reportTail = ''Next:'' @ newline @ bullet @ '' Continue with assigned task and R&D'' @ newline"

text \<open>
  \<^verbatim>\<open>formatEvents(events)\<close>, with its two reads of the environment made parameters:
  \<open>username\<close> for \<^verbatim>\<open>os.Getenv("GITHUB_USERNAME")\<close> and \<open>now\<close> for \<^verbatim>\<open>time.Now()\<close>.
  \<open>None\<close> is a panic, which ends the program without a report.
\<close>

definition formatEvents :: "string \<Rightarrow> Time \<Rightarrow> event list \<Rightarrow> string option" where
  "formatEvents username now events =
     do { st \<leftarrow> eventLoop username events (reportHead now, Map.empty);
          Some (fst st @ reportTail) }"

section \<open>Notions the properties are stated with\<close>

text \<open>
  None of the definitions of this section is part of the program: they are what the
  statements below compare the program with.
\<close>

subsection \<open>The rule table\<close>

text \<open>
  The six numbered rules of the classifier's table and their statuses, each rule on its
  own, without the order of evaluation.
\<close>

definition rule :: "nat \<Rightarrow> string \<Rightarrow> locals \<Rightarrow> bool" where
  "rule k username l =
     (if k = 1 then author l = username \<and> action l = ''opened'' \<and> merged l
      else if k = 2 then author l = username \<and> action l = ''opened''
      else if k = 3 then author l = username \<and> action l = ''closed'' \<and> merged l
      else if k = 4 then author l = username \<and> merged l
      else if k = 5 then author l \<noteq> username \<and> action l = ''closed'' \<and> merged l
      else if k = 6 then author l \<noteq> username \<and> action l = ''closed''
      else False)"

definition ruleStatus :: "nat \<Rightarrow> string" where
  "ruleStatus k =
     (if k = 1 then ''Done''
      else if k = 2 then ''In Review''
      else if k = 3 then ''Done''
      else if k = 4 then ''Done''
      else if k = 5 then ''Reviewed and merged''
      else if k = 6 then ''Reviewed''
      else [])"

subsection \<open>The events that reach the seen-title check\<close>

text \<open>
  The values of the local variables with which the loop body reaches
  \<^verbatim>\<open>if !seenTitles[prTitle]\<close> for an event; \<open>None\<close> when it does not reach it (the
  \<^verbatim>\<open>continue\<close> for a type that is no string, or a panic).
\<close>

definition eventLocals :: "event \<Rightarrow> locals option" where
  "eventLocals event =
     (case assertString (mapIndex event ''type'') of
        (eventType, False) \<Rightarrow> None
      | (eventType, True) \<Rightarrow> switchEventType eventType event)"

subsection \<open>The classified entries\<close>

text \<open>
  The classifier as a function of its own: from the extracted fields of the events, in
  order, and the titles seen so far, the (status, title) entries. An event whose title
  is seen is skipped; otherwise the title becomes seen and the entry is kept when status
  and title are both non-empty.
\<close>

fun classify :: "string \<Rightarrow> locals list \<Rightarrow> string set \<Rightarrow> (string \<times> string) list" where
  "classify username [] seen = []"
| "classify username (l # ls) seen =
     (if prTitle l \<in> seen then classify username ls seen
      else (if switchStatus username l \<noteq> [] \<and> prTitle l \<noteq> []
            then [(switchStatus username l, prTitle l)] else [])
           @ classify username ls (insert (prTitle l) seen))"

definition entryLine :: "string \<times> string \<Rightarrow> string" where
  "entryLine e = reportLine (fst e) (snd e)"

text \<open>The elements of a list in the order of their first occurrence, past a given set.\<close>

fun firstSeen :: "'a set \<Rightarrow> 'a list \<Rightarrow> 'a list" where
  "firstSeen seen [] = []"
| "firstSeen seen (x # xs) =
     (if x \<in> seen then firstSeen seen xs else x # firstSeen (insert x seen) xs)"

text \<open>The lines of a text: the pieces between newlines.\<close>

fun splitLines :: "string \<Rightarrow> string list" where
  "splitLines [] = [[]]"
| "splitLines (c # cs) =
     (if c = CHR 0x0A then [] # splitLines cs
      else (case splitLines cs of [] \<Rightarrow> [[c]] | cur # rest \<Rightarrow> (c # cur) # rest))"

subsection \<open>The reference classifier that skips other event types\<close>

text \<open>
  The loop body as the specification words it: an event whose type is neither
  \<^verbatim>\<open>PullRequestEvent\<close> nor \<^verbatim>\<open>PullRequestReviewEvent\<close> is skipped before anything is
  extracted or marked seen. Everything else is the program's.
\<close>

definition loopBodyRef :: "string \<Rightarrow> event \<Rightarrow> loopState \<Rightarrow> loopState option" where
  "loopBodyRef username event st =
     (case assertString (mapIndex event ''type'') of
        (eventType, False) \<Rightarrow> Some st
      | (eventType, True) \<Rightarrow>
          if eventType \<noteq> ''PullRequestEvent'' \<and> eventType \<noteq> ''PullRequestReviewEvent''
          then Some st
          else do { l \<leftarrow> switchEventType eventType event; Some (checkSeen username l st) })"

fun eventLoopRef :: "string \<Rightarrow> event list \<Rightarrow> loopState \<Rightarrow> loopState option" where
  "eventLoopRef username [] st = Some st"
| "eventLoopRef username (event # events) st =
     do { st' \<leftarrow> loopBodyRef username event st; eventLoopRef username events st' }"

definition formatEventsRef :: "string \<Rightarrow> Time \<Rightarrow> event list \<Rightarrow> string option" where
  "formatEventsRef username now events =
     do { st \<leftarrow> eventLoopRef username events (reportHead now, Map.empty);
          Some (fst st @ reportTail) }"

subsection \<open>The calendar day in UTC\<close>

text \<open>
  The wall clock of the same instant at offset zero, what \<^verbatim>\<open>t.UTC()\<close> would print. The
  program never calls it.
\<close>

definition nextDay :: "int \<times> nat \<times> nat \<Rightarrow> int \<times> nat \<times> nat" where
  "nextDay ymd =
     (case ymd of (y, m, d) \<Rightarrow>
        if d < daysIn m y then (y, m, d + 1)
        else if m < 12 then (y, m + 1, 1)
        else (y + 1, 1, 1))"

definition prevDay :: "int \<times> nat \<times> nat \<Rightarrow> int \<times> nat \<times> nat" where
  "prevDay ymd =
     (case ymd of (y, m, d) \<Rightarrow>
        if 1 < d then (y, m, d - 1)
        else if 1 < m then (y, m - 1, daysIn (m - 1) y)
        else (y - 1, 12, 31))"

definition inUTC :: "Time \<Rightarrow> Time" where
  "inUTC t =
     (let s = int (hour t * 3600 + minute t * 60 + second t) - zoneOffset t;
          shift = s div 86400;
          r = nat (s mod 86400);
          ymd = (if 0 \<le> shift then (nextDay ^^ nat shift) (year t, month t, day t)
                 else (prevDay ^^ nat (- shift)) (year t, month t, day t))
      in \<lparr>year = fst ymd, month = fst (snd ymd), day = snd (snd ymd),
          hour = r div 3600, minute = (r mod 3600) div 60, second = r mod 60,
          nsec = nsec t, zoneOffset = 0\<rparr>)"

subsection \<open>Fixed-width decimal digits\<close>

text \<open>The \<open>w\<close> lowest decimal digits of a number, most significant first.\<close>

fun fixedDigits :: "nat \<Rightarrow> nat \<Rightarrow> string" where
  "fixedDigits 0 n = []"
| "fixedDigits (Suc w) n = fixedDigits w (n div 10) @ [digitChar (n mod 10)]"

section \<open>Sample events\<close>

text \<open>Events as the events endpoint sends them, reduced to the fields the program reads.\<close>

definition pullRequestEvent :: "string \<Rightarrow> string \<Rightarrow> bool \<Rightarrow> string \<Rightarrow> string \<Rightarrow> event" where
  "pullRequestEvent createdAt a m title login =
     [''type'' \<mapsto> JString ''PullRequestEvent'',
      ''created_at'' \<mapsto> JString createdAt,
      ''payload'' \<mapsto> JObject
        [''action'' \<mapsto> JString a,
         ''pull_request'' \<mapsto> JObject
           [''merged'' \<mapsto> JBool m,
            ''title'' \<mapsto> JString title,
            ''user'' \<mapsto> JObject [''login'' \<mapsto> JString login]]]]"


definition pushEvent :: "string \<Rightarrow> event" where
  "pushEvent createdAt =
     [''type'' \<mapsto> JString ''PushEvent'',
      ''created_at'' \<mapsto> JString createdAt,
      ''payload'' \<mapsto> JObject [''ref'' \<mapsto> JString ''refs/heads/main'']]"

definition jan02 :: Time where
  "jan02 = \<lparr>year = 2024, month = 1, day = 2, hour = 18, minute = 30, second = 0,
            nsec = 0, zoneOffset = 0\<rparr>"

section \<open>Evaluation lemmas\<close>

lemma decimal_lt10 [simp]: "u < 10 \<Longrightarrow> decimal u = [digitChar u]"
  by (simp add: decimal.simps)

lemma decimal_ge10: "10 \<le> u \<Longrightarrow> decimal u = decimal (u div 10) @ [digitChar (u mod 10)]"
  by (subst decimal.simps) simp

section \<open>The seen titles and the classified entries\<close>

lemma seenLookup_upd: "seenLookup (s(k \<mapsto> True)) t = (t = k \<or> seenLookup s t)"
  by (simp add: seenLookup_def)

lemma seenSet_upd: "{t. seenLookup (s(k \<mapsto> True)) t} = insert k {t. seenLookup s t}"
  by (auto simp: seenLookup_upd)

lemma seenSet_empty: "{t. seenLookup Map.empty t} = {}"
  by (simp add: seenLookup_def)

lemma loopBody_cases:
  "loopBody u e st =
     (if snd (assertString (mapIndex e ''type''))
      then map_option (\<lambda>l. checkSeen u l st) (eventLocals e) else Some st)"
  by (cases "assertString (mapIndex e ''type'')"; cases "eventLocals e")
     (auto simp: loopBody_def eventLocals_def)

lemma checkSeen_classify:
  "checkSeen u l (rep, seen) = (rep', seen') \<Longrightarrow>
     rep' = rep @ concat (map entryLine (classify u [l] {t. seenLookup seen t}))
     \<and> {t. seenLookup seen' t} =
         (if prTitle l \<in> {t. seenLookup seen t} then {t. seenLookup seen t}
          else insert (prTitle l) {t. seenLookup seen t})"
  by (auto simp: checkSeen_def Let_def entryLine_def seenLookup_upd split: if_splits)

lemma classify_append:
  "classify u (xs @ ys) S = classify u xs S @ classify u ys (S \<union> prTitle ` set xs)"
  by (induction xs arbitrary: S) (auto simp: insert_absorb)

lemma eventLoop_classify:
  "eventLoop u es (rep, seen) = Some st' \<Longrightarrow>
     fst st' = rep @ concat (map entryLine
                 (classify u (List.map_filter eventLocals es) {t. seenLookup seen t}))"
proof (induction es arbitrary: rep seen)
  case Nil
  then show ?case by auto
next
  case (Cons e es)
  from Cons.prems obtain st1 where b: "loopBody u e (rep, seen) = Some st1"
    and r: "eventLoop u es st1 = Some st'"
    by (auto split: bind_splits)
  obtain rep1 seen1 where st1: "st1 = (rep1, seen1)" by (cases st1)
  have ih: "fst st' = rep1 @ concat (map entryLine
                 (classify u (List.map_filter eventLocals es) {t. seenLookup seen1 t}))"
    using Cons.IH r st1 by simp
  show ?case
  proof (cases "snd (assertString (mapIndex e ''type''))")
    case False
    then have "st1 = (rep, seen)" and "eventLocals e = None"
      using b by (auto simp: loopBody_cases eventLocals_def split: prod.splits)
    then show ?thesis using ih st1 by simp
  next
    case True
    then obtain l where l: "eventLocals e = Some l" and c: "checkSeen u l (rep, seen) = (rep1, seen1)"
      using b st1 by (auto simp: loopBody_cases)
    from checkSeen_classify[OF c] ih l show ?thesis
      by auto
  qed
qed

lemma classify_titles_fresh: "snd ` set (classify u ls S) \<inter> S = {}"
  by (induction ls arbitrary: S) auto

lemma classify_titles_sub: "snd ` set (classify u ls S) \<subseteq> prTitle ` set ls"
  by (induction ls arbitrary: S) auto

lemma classify_distinct: "distinct (map snd (classify u ls S))"
proof (induction ls arbitrary: S)
  case Nil
  show ?case by simp
next
  case (Cons l ls)
  have "prTitle l \<notin> snd ` set (classify u ls (insert (prTitle l) S))"
    using classify_titles_fresh[of u ls "insert (prTitle l) S"] by auto
  then show ?case using Cons.IH by auto
qed

lemma classify_first:
  "(s, t) \<in> set (classify u ls S) \<Longrightarrow>
     \<exists>l. find (\<lambda>l. prTitle l = t) ls = Some l \<and> s = switchStatus u l"
proof (induction ls arbitrary: S)
  case Nil
  then show ?case by simp
next
  case (Cons l ls)
  show ?case
  proof (cases "prTitle l = t")
    case True
    have "t \<notin> snd ` set (classify u ls (insert t S))"
      using classify_titles_fresh[of u ls "insert t S"] by auto
    then have "(s, t) \<notin> set (classify u ls (insert t S))" by force
    moreover have "t \<notin> S" using classify_titles_fresh[of u "l # ls" S] Cons.prems by force
    ultimately show ?thesis using Cons.prems True by (auto split: if_splits)
  next
    case False
    then have "(s, t) \<in> set (classify u ls S) \<or> (s, t) \<in> set (classify u ls (insert (prTitle l) S))"
      using Cons.prems by (auto split: if_splits)
    then show ?thesis using Cons.IH False by auto
  qed
qed

lemma classify_subseq_firstSeen:
  "subseq (map snd (classify u ls S)) (firstSeen S (map prTitle ls))"
  by (induction ls arbitrary: S) (auto intro: subseq_Cons2 list_emb_Cons)

lemma firstSeen_distinct: "distinct (firstSeen S xs) \<and> set (firstSeen S xs) = set xs - S"
  by (induction xs arbitrary: S) auto

lemma dailyLoop_filter: "dailyLoop date es acc = acc @ filter (createdOn date) es"
  by (induction es arbitrary: acc) auto

lemma getDailyEvents_filter: "getDailyEvents date es = filter (createdOn date) es"
  by (simp add: getDailyEvents_def dailyLoop_filter)

section \<open>Seen maps that differ at the empty title only\<close>

lemma checkSeen_agree:
  assumes "\<forall>t. t \<noteq> [] \<longrightarrow> seenLookup s1 t = seenLookup s2 t"
  shows "fst (checkSeen u l (rep, s1)) = fst (checkSeen u l (rep, s2))
         \<and> (\<forall>t. t \<noteq> [] \<longrightarrow> seenLookup (snd (checkSeen u l (rep, s1))) t
                              = seenLookup (snd (checkSeen u l (rep, s2))) t)"
proof (cases "prTitle l = []")
  case True
  then show ?thesis using assms by (simp add: checkSeen_def Let_def seenLookup_upd)
next
  case False
  then have "seenLookup s1 (prTitle l) = seenLookup s2 (prTitle l)" using assms by simp
  then show ?thesis using assms by (simp add: checkSeen_def Let_def seenLookup_upd)
qed

lemma switchEventType_other:
  "ty \<noteq> ''PullRequestEvent'' \<Longrightarrow> ty \<noteq> ''PullRequestReviewEvent'' \<Longrightarrow>
     switchEventType ty e = Some \<lparr>prTitle = [], action = [], author = [], merged = False\<rparr>"
  by (simp add: switchEventType_def)

lemma checkSeen_zero:
  "fst (checkSeen u \<lparr>prTitle = [], action = [], author = [], merged = False\<rparr> (rep, s)) = rep
   \<and> (\<forall>t. t \<noteq> [] \<longrightarrow> seenLookup (snd (checkSeen u \<lparr>prTitle = [], action = [], author = [], merged = False\<rparr> (rep, s))) t = seenLookup s t)"
  by (simp add: checkSeen_def Let_def seenLookup_upd)

lemma loopBody_Ref_agree:
  assumes "\<forall>t. t \<noteq> [] \<longrightarrow> seenLookup s1 t = seenLookup s2 t"
  shows "(loopBody u e (rep, s1) = None \<and> loopBodyRef u e (rep, s2) = None)
       \<or> (\<exists>rep' s1' s2'. loopBody u e (rep, s1) = Some (rep', s1')
            \<and> loopBodyRef u e (rep, s2) = Some (rep', s2')
            \<and> (\<forall>t. t \<noteq> [] \<longrightarrow> seenLookup s1' t = seenLookup s2' t))"
proof (cases "assertString (mapIndex e ''type'')")
  case (Pair ty ok)
  show ?thesis
  proof (cases ok)
    case False
    then show ?thesis using Pair assms by (simp add: loopBody_def loopBodyRef_def)
  next
    case True
    show ?thesis
    proof (cases "ty \<noteq> ''PullRequestEvent'' \<and> ty \<noteq> ''PullRequestReviewEvent''")
      case other: True
      let ?z = "\<lparr>prTitle = [], action = [], author = [], merged = False\<rparr>"
      have a: "loopBody u e (rep, s1) = Some (checkSeen u ?z (rep, s1))"
        using Pair True other by (simp add: loopBody_def switchEventType_other)
      have b: "loopBodyRef u e (rep, s2) = Some (rep, s2)"
        using Pair True other by (simp add: loopBodyRef_def)
      obtain r' s' where c: "checkSeen u ?z (rep, s1) = (r', s')" by (cases "checkSeen u ?z (rep, s1)")
      have "r' = rep" and "\<forall>t. t \<noteq> [] \<longrightarrow> seenLookup s' t = seenLookup s1 t"
        using checkSeen_zero[of u rep s1] c by simp_all
      then show ?thesis using a b c assms by simp
    next
      case pr: False
      show ?thesis
      proof (cases "switchEventType ty e")
        case None
        then show ?thesis using Pair True pr by (simp add: loopBody_def loopBodyRef_def)
      next
        case (Some l)
        have a: "loopBody u e (rep, s1) = Some (checkSeen u l (rep, s1))"
          using Pair True Some by (simp add: loopBody_def)
        have b: "loopBodyRef u e (rep, s2) = Some (checkSeen u l (rep, s2))"
          using Pair True Some pr by (auto simp: loopBodyRef_def)
        obtain r1 t1 where c1: "checkSeen u l (rep, s1) = (r1, t1)" by (cases "checkSeen u l (rep, s1)")
        obtain r2 t2 where c2: "checkSeen u l (rep, s2) = (r2, t2)" by (cases "checkSeen u l (rep, s2)")
        from checkSeen_agree[OF assms, of u l rep] c1 c2
        have "r1 = r2" and "\<forall>t. t \<noteq> [] \<longrightarrow> seenLookup t1 t = seenLookup t2 t" by simp_all
        then show ?thesis using a b c1 c2 by simp
      qed
    qed
  qed
qed

lemma eventLoop_Ref_agree:
  "\<forall>t. t \<noteq> [] \<longrightarrow> seenLookup s1 t = seenLookup s2 t \<Longrightarrow>
     map_option fst (eventLoop u es (rep, s1)) = map_option fst (eventLoopRef u es (rep, s2))"
proof (induction es arbitrary: rep s1 s2)
  case Nil
  show ?case by simp
next
  case (Cons e es)
  from loopBody_Ref_agree[OF Cons.prems, of u e rep]
  show ?case
  proof
    assume "loopBody u e (rep, s1) = None \<and> loopBodyRef u e (rep, s2) = None"
    then show ?thesis by simp
  next
    assume "\<exists>rep' s1' s2'. loopBody u e (rep, s1) = Some (rep', s1')
            \<and> loopBodyRef u e (rep, s2) = Some (rep', s2')
            \<and> (\<forall>t. t \<noteq> [] \<longrightarrow> seenLookup s1' t = seenLookup s2' t)"
    then obtain rep' s1' s2' where a: "loopBody u e (rep, s1) = Some (rep', s1')"
      and b: "loopBodyRef u e (rep, s2) = Some (rep', s2')"
      and c: "\<forall>t. t \<noteq> [] \<longrightarrow> seenLookup s1' t = seenLookup s2' t" by blast
    from Cons.IH[OF c, of rep'] a b show ?thesis by simp
  qed
qed

lemma formatEvents_Ref_aux: "formatEvents u now es = formatEventsRef u now es"
proof -
  have "map_option fst (eventLoop u es (reportHead now, Map.empty))
        = map_option fst (eventLoopRef u es (reportHead now, Map.empty))"
    by (rule eventLoop_Ref_agree) simp
  then show ?thesis
    by (cases "eventLoop u es (reportHead now, Map.empty)";
        cases "eventLoopRef u es (reportHead now, Map.empty)")
       (auto simp: formatEvents_def formatEventsRef_def)
qed

lemma eventLoopRef_append:
  "eventLoopRef u (xs @ ys) st = eventLoopRef u xs st \<bind> eventLoopRef u ys"
  by (induction xs arbitrary: st) (auto split: bind_splits)

lemma eventLoop_append:
  "eventLoop u (xs @ ys) st = eventLoop u xs st \<bind> eventLoop u ys"
  by (induction xs arbitrary: st) (auto split: bind_splits)

lemma loopBodyRef_other:
  "mapIndex e ''type'' \<noteq> JString ''PullRequestEvent'' \<Longrightarrow>
   mapIndex e ''type'' \<noteq> JString ''PullRequestReviewEvent'' \<Longrightarrow> loopBodyRef u e st = Some st"
  by (cases "mapIndex e ''type''") (auto simp: loopBodyRef_def)

lemma formatEventsRef_drop_other:
  assumes "mapIndex e ''type'' \<noteq> JString ''PullRequestEvent''"
      and "mapIndex e ''type'' \<noteq> JString ''PullRequestReviewEvent''"
  shows "formatEventsRef u now (xs @ e # ys) = formatEventsRef u now (xs @ ys)"
  by (cases "eventLoopRef u xs (reportHead now, Map.empty)")
     (simp_all add: formatEventsRef_def eventLoopRef_append loopBodyRef_other[OF assms])

lemma formatEvents_drop_other:
  assumes "mapIndex e ''type'' \<noteq> JString ''PullRequestEvent''"
      and "mapIndex e ''type'' \<noteq> JString ''PullRequestReviewEvent''"
  shows "formatEvents u now (xs @ e # ys) = formatEvents u now (xs @ ys)"
  by (simp add: formatEvents_Ref_aux formatEventsRef_drop_other[OF assms])

lemma checkSeen_seen_mono:
  "seenLookup s t \<Longrightarrow> seenLookup (snd (checkSeen u l (rep, s))) t"
  by (simp add: checkSeen_def Let_def seenLookup_upd)

lemma loopBody_seen_mono:
  assumes a: "loopBody u e (rep, s) = Some (rep', s')" and b: "seenLookup s t"
  shows "seenLookup s' t"
proof (cases "snd (assertString (mapIndex e ''type''))")
  case False
  then show ?thesis using a b by (simp add: loopBody_cases)
next
  case True
  then obtain l where "checkSeen u l (rep, s) = (rep', s')"
    using a by (auto simp: loopBody_cases)
  then have "s' = snd (checkSeen u l (rep, s))" by simp
  then show ?thesis using checkSeen_seen_mono[OF b] by simp
qed

lemma eventLoop_seen_mono:
  "eventLoop u es (rep, s) = Some (rep', s') \<Longrightarrow> seenLookup s t \<Longrightarrow> seenLookup s' t"
proof (induction es arbitrary: rep s)
  case Nil
  then show ?case by simp
next
  case (Cons e es)
  from Cons.prems(1) obtain r1 s1 where a: "loopBody u e (rep, s) = Some (r1, s1)"
    and b: "eventLoop u es (r1, s1) = Some (rep', s')"
    by (auto split: bind_splits)
  from loopBody_seen_mono[OF a Cons.prems(2)] Cons.IH[OF b] show ?case by simp
qed

lemma checkSeen_seen_skip:
  "seenLookup s (prTitle l) \<Longrightarrow> checkSeen u l (rep, s) = (rep, s)"
  by (simp add: checkSeen_def)

section \<open>Printing a parsed date\<close>

lemma digitChar_of_char:
  assumes "isDigit c"
  shows "digitChar (of_char c - 48) = c"
proof (rule of_char_eqI[where 'a = nat])
  from assms have "48 \<le> (of_char c :: nat)" and "(of_char c :: nat) \<le> 57"
    by (simp_all add: isDigit_def)
  then have "\<exists>k<10. (of_char c :: nat) = 48 + k" by (intro exI[of _ "of_char c - 48"]) simp
  then obtain k where k: "k < 10" and c: "(of_char c :: nat) = 48 + k" by blast
  from k have "k = 0 \<or> k = 1 \<or> k = 2 \<or> k = 3 \<or> k = 4 \<or> k = 5 \<or> k = 6 \<or> k = 7 \<or> k = 8 \<or> k = 9"
    by arith
  then show "of_char (digitChar (of_char c - 48)) = (of_char c :: nat)"
    unfolding c by (elim disjE) (simp_all add: digitChar_def)
qed

lemma isDigit_value_lt10: "isDigit c \<Longrightarrow> (of_char c :: nat) - 48 < 10"
  by (auto simp: isDigit_def)

lemma fixedDigits_zero: "fixedDigits w 0 = replicate w (CHR ''0'')"
  by (induction w) (auto simp: digitChar_def replicate_append_same)

lemma fixedDigits_pad:
  "n < 10 ^ w \<Longrightarrow> 1 \<le> w \<Longrightarrow>
     replicate (w - length (decimal n)) (CHR ''0'') @ decimal n = fixedDigits w n"
proof (induction w arbitrary: n)
  case 0
  then show ?case by simp
next
  case (Suc w)
  show ?case
  proof (cases "n < 10")
    case True
    then show ?thesis by (simp add: fixedDigits_zero)
  next
    case False
    then have ge: "10 \<le> n" by simp
    have w1: "1 \<le> w" using Suc.prems ge by (cases w) auto
    have lt: "n div 10 < 10 ^ w" using Suc.prems by (simp add: less_mult_imp_div_less mult.commute)
    from Suc.IH[OF lt w1] show ?thesis
      by (simp add: decimal_ge10[OF ge])
  qed
qed

lemma fixedDigits_Cons:
  "d < 10 \<Longrightarrow> v < 10 ^ n \<Longrightarrow> fixedDigits (Suc n) (d * 10 ^ n + v) = digitChar d # fixedDigits n v"
proof (induction n arbitrary: v)
  case 0
  then show ?case by (simp add: digitChar_def)
next
  case (Suc n)
  have a: "(d * 10 ^ Suc n + v) div 10 = d * 10 ^ n + v div 10" by simp
  have "d * 10 ^ Suc n = 10 * (d * 10 ^ n)" by simp
  then have b: "(d * 10 ^ Suc n + v) mod 10 = v mod 10" by (simp only: mod_mult_self4)
  have c: "v div 10 < 10 ^ n" using Suc.prems(2) by (simp add: less_mult_imp_div_less mult.commute)
  have "fixedDigits (Suc (Suc n)) (d * 10 ^ Suc n + v)
        = fixedDigits (Suc n) (d * 10 ^ n + v div 10) @ [digitChar (v mod 10)]"
    by (simp only: fixedDigits.simps a b)
  also have "\<dots> = (digitChar d # fixedDigits n (v div 10)) @ [digitChar (v mod 10)]"
    using Suc.IH[OF Suc.prems(1) c] by simp
  finally show ?case by simp
qed

lemma digitsValue_fixed:
  "digitsValue ds acc = Some x \<Longrightarrow>
     \<exists>v. x = acc * 10 ^ length ds + v \<and> v < 10 ^ length ds \<and> fixedDigits (length ds) v = ds"
proof (induction ds arbitrary: acc)
  case Nil
  then show ?case by simp
next
  case (Cons c cs)
  from Cons.prems have dc: "isDigit c"
    and r: "digitsValue cs (acc * 10 + (of_char c - 48)) = Some x"
    by (auto split: if_splits)
  let ?d = "of_char c - 48 :: nat"
  from Cons.IH[OF r] obtain v where x: "x = (acc * 10 + ?d) * 10 ^ length cs + v"
    and v: "v < 10 ^ length cs" and f: "fixedDigits (length cs) v = cs" by blast
  have d: "?d < 10" using dc by (rule isDigit_value_lt10)
  let ?v = "?d * 10 ^ length cs + v"
  have "x = acc * 10 ^ length (c # cs) + ?v" using x by (simp add: algebra_simps)
  moreover have "?v < 10 ^ length (c # cs)"
  proof -
    have "?d * 10 ^ length cs \<le> 9 * 10 ^ length cs" using d by simp
    then have "?v < 10 * 10 ^ length cs" using v by arith
    then show ?thesis by simp
  qed
  moreover have "fixedDigits (length (c # cs)) ?v = c # cs"
    using fixedDigits_Cons[OF d v] f digitChar_of_char[OF dc] by simp
  ultimately show ?case by blast
qed

lemma parseUint_appendInt:
  assumes "parseUint ds lo hi = Some x" and "1 \<le> length ds"
  shows "appendInt (int x) (length ds) = ds"
proof -
  from assms(1) have "digitsValue ds 0 = Some x"
    by (auto simp: parseUint_def split: option.splits if_splits)
  from digitsValue_fixed[OF this] have lt: "x < 10 ^ length ds" and f: "fixedDigits (length ds) x = ds"
    by auto
  show ?thesis using fixedDigits_pad[OF lt assms(2)] f by (simp add: appendInt_def)
qed

lemma parseUint_range: "parseUint ds lo hi = Some x \<Longrightarrow> lo \<le> x \<and> x \<le> hi"
  by (auto simp: parseUint_def split: option.splits if_splits)

lemma take10_pieces:
  assumes "19 \<le> length s"
  shows "take 10 s = slice s 0 4 @ [s ! 4] @ slice s 5 7 @ [s ! 7] @ slice s 8 10"
proof -
  have a: "take 10 s = take 8 s @ take 2 (drop 8 s)" using take_add[of 8 2 s] by simp
  have b: "take 8 s = take 7 s @ [s ! 7]" using take_Suc_conv_app_nth[of 7 s] assms by simp
  have c: "take 7 s = take 5 s @ take 2 (drop 5 s)" using take_add[of 5 2 s] by simp
  have d: "take 5 s = take 4 s @ [s ! 4]" using take_Suc_conv_app_nth[of 4 s] assms by simp
  show ?thesis by (simp add: a b c d slice_def)
qed

lemma parseRFC3339_fields:
  assumes "parseRFC3339 s = Some t"
  shows "19 \<le> length s"
    and "parseUint (slice s 0 4) 0 9999 = Some (nat (year t))" and "0 \<le> year t"
    and "parseUint (slice s 5 7) 1 12 = Some (month t)"
    and "parseUint (slice s 8 10) 1 (daysIn (month t) (year t)) = Some (day t)"
    and "s ! 4 = CHR ''-''" and "s ! 7 = CHR ''-''"
    and "hour t \<le> 23" and "minute t \<le> 59" and "second t \<le> 59"
  using assms
  by (auto simp: parseRFC3339_def split: if_splits bind_splits dest: parseUint_range)

lemma Format_dateFormat_parsed:
  assumes "parseRFC3339 s = Some t"
  shows "Format_dateFormat t = take 10 s"
proof -
  note f = parseRFC3339_fields[OF assms]
  have len: "19 \<le> length s" by (rule f(1))
  have l4: "length (slice s 0 4) = 4" and l2: "length (slice s 5 7) = 2"
    and l2': "length (slice s 8 10) = 2"
    using len by (simp_all add: slice_def)
  have y: "appendInt (year t) 4 = slice s 0 4"
    using parseUint_appendInt[OF f(2)] l4 f(3) by simp
  have m: "appendInt (int (month t)) 2 = slice s 5 7"
    using parseUint_appendInt[OF f(4)] l2 by simp
  have d: "appendInt (int (day t)) 2 = slice s 8 10"
    using parseUint_appendInt[OF f(5)] l2' by simp
  show ?thesis
    by (simp add: Format_dateFormat_def y m d take10_pieces[OF len] f(6) f(7))
qed

lemma inUTC_zero_offset:
  assumes "hour t \<le> 23" and "minute t \<le> 59" and "second t \<le> 59" and "zoneOffset t = 0"
  shows "inUTC t = t"
proof -
  let ?n = "hour t * 3600 + minute t * 60 + second t"
  have lt: "?n < 86400" using assms(1,2,3) by simp
  have dv: "int ?n div 86400 = 0" using lt by simp
  have md: "nat (int ?n mod 86400) = ?n" using lt by simp
  have h: "?n div 3600 = hour t" using assms(2,3) by simp
  have mi: "(?n mod 3600) div 60 = minute t"
  proof -
    have "?n = hour t * 3600 + (minute t * 60 + second t)" by simp
    then have "?n mod 3600 = (minute t * 60 + second t) mod 3600" by (simp only: mod_mult_self3)
    then have "?n mod 3600 = minute t * 60 + second t" using assms(2,3) by simp
    then show ?thesis using assms(3) by simp
  qed
  have se: "?n mod 60 = second t"
  proof -
    have "?n = (hour t * 60 + minute t) * 60 + second t" by simp
    then have "?n mod 60 = second t mod 60" by (metis mod_mult_self3)
    then show ?thesis using assms(3) by simp
  qed
  have eq: "int ?n - zoneOffset t = int ?n" using assms(4) by simp
  show ?thesis
    unfolding inUTC_def Let_def eq dv md h mi se by (simp add: assms(4)[symmetric])
qed

subsection \<open>The general parser and the call\<close>

lemma digitsValue_appendInt:
  assumes "digitsValue ds 0 = Some x" and "1 \<le> length ds"
  shows "appendInt (int x) (length ds) = ds"
proof -
  from digitsValue_fixed[OF assms(1)] have lt: "x < 10 ^ length ds"
    and f: "fixedDigits (length ds) x = ds" by auto
  show ?thesis using fixedDigits_pad[OF lt assms(2)] f by (simp add: appendInt_def)
qed

lemma getnum_fixed:
  assumes "getnum v True = Some (n, r)"
  shows "\<exists>a b. v = a # b # r \<and> digitsValue [a, b] 0 = Some n"
proof (cases v)
  case Nil
  then show ?thesis using assms by (simp add: getnum_def isDigitAt_def)
next
  case (Cons a w)
  show ?thesis
  proof (cases w)
    case Nil
    then show ?thesis using assms Cons by (simp add: getnum_def isDigitAt_def split: if_splits)
  next
    case (Cons b w')
    then show ?thesis using assms \<open>v = a # w\<close>
      by (auto simp: getnum_def isDigitAt_def split: if_splits)
  qed
qed

lemma getnum_two_digits:
  assumes "getnum v True = Some (n, r)"
  shows "\<exists>a b. v = a # b # r \<and> appendInt (int n) 2 = [a, b]"
proof -
  from getnum_fixed[OF assms] obtain a b where v: "v = a # b # r"
    and d: "digitsValue [a, b] 0 = Some n" by blast
  from digitsValue_appendInt[OF d] have "appendInt (int n) 2 = [a, b]"
    by (simp add: numeral_2_eq_2)
  then show ?thesis using v by blast
qed

lemma skip_one: "skip v [c] = Some r \<Longrightarrow> v = c # r"
  by (cases v) (auto split: if_splits)

lemma parseGeneral_fields:
  assumes "parseGeneral s = Some t"
  shows "Format_dateFormat t = take 10 s"
    and "hour t \<le> 23" and "minute t \<le> 59" and "second t \<le> 59"
proof -
  from assms have len: "4 \<le> length s"
    by (auto simp: parseGeneral_def split: if_splits)
  from assms obtain y v1 mo v2 v3 d v4 where
      y: "digitsValue (take 4 s) 0 = Some y"
    and s1: "skip (drop 4 s) ''-'' = Some v1"
    and g1: "getnum v1 True = Some (mo, v2)"
    and s2: "skip v2 ''-'' = Some v3"
    and g2: "getnum v3 True = Some (d, v4)"
    and ty: "year t = int y" and tm: "month t = mo" and td: "day t = d"
    and rng: "hour t \<le> 23 \<and> minute t \<le> 59 \<and> second t \<le> 59"
    by (auto simp: parseGeneral_def atoi_def require_def split: if_splits bind_splits prod.splits)
  have y4: "appendInt (int y) 4 = take 4 s"
    using digitsValue_appendInt[OF y] len by simp
  have d1: "drop 4 s = CHR ''-'' # v1" using skip_one[OF s1] .
  from getnum_two_digits[OF g1] obtain a b where v1: "v1 = a # b # v2"
    and m2: "appendInt (int mo) 2 = [a, b]" by blast
  have d2: "v2 = CHR ''-'' # v3" using skip_one[OF s2] .
  from getnum_two_digits[OF g2] obtain c e where v3: "v3 = c # e # v4"
    and dd: "appendInt (int d) 2 = [c, e]" by blast
  have "s = take 4 s @ drop 4 s" by simp
  also have "\<dots> = take 4 s @ CHR ''-'' # a # b # CHR ''-'' # c # e # v4"
    using d1 v1 d2 v3 by simp
  finally have s: "s = take 4 s @ CHR ''-'' # a # b # CHR ''-'' # c # e # v4" .
  have "take 10 s = take 4 s @ [CHR ''-'', a, b, CHR ''-'', c, e]"
    by (subst s) (use len in simp)
  then show "Format_dateFormat t = take 10 s"
    by (simp add: Format_dateFormat_def ty tm td y4 m2 dd)
  show "hour t \<le> 23" and "minute t \<le> 59" and "second t \<le> 59" using rng by simp_all
qed

lemma Parse_RFC3339_fields:
  assumes "Parse_RFC3339 s = Some t"
  shows "Format_dateFormat t = take 10 s"
    and "hour t \<le> 23" and "minute t \<le> 59" and "second t \<le> 59"
proof -
  have "Format_dateFormat t = take 10 s \<and> hour t \<le> 23 \<and> minute t \<le> 59 \<and> second t \<le> 59"
  proof (cases "parseRFC3339 s")
    case None
    then have "parseGeneral s = Some t" using assms by (simp add: Parse_RFC3339_def)
    then show ?thesis using parseGeneral_fields by blast
  next
    case (Some t')
    then have "parseRFC3339 s = Some t" using assms by (simp add: Parse_RFC3339_def)
    then show ?thesis using Format_dateFormat_parsed parseRFC3339_fields(8,9,10) by blast
  qed
  then show "Format_dateFormat t = take 10 s"
    and "hour t \<le> 23" and "minute t \<le> 59" and "second t \<le> 59" by simp_all
qed

section \<open>Running the program on sample events\<close>

lemmas run_simps =
  formatEvents_def loopBody_def mapIndex_def switchEventType_def pullRequestEventArm_def
  pullRequestReviewEventArm_def checkSeen_def seenLookup_def switchStatus_def reportLine_def
  eventLocals_def Let_def

lemmas text_simps =
  reportHead_def reportTail_def Format_Jan_02_2006_def monthAbbrev_def shortMonthNames_def
  appendInt_def decimal_ge10 digitChar_def jan02_def bullet_def newline_def

lemmas parse_simps =
  createdOn_def Parse_RFC3339_def parseRFC3339_def parseUint_def slice_def isDigit_def
  daysIn_def isLeap_def parseZone_def parseFraction_def parseGeneral_def isDigitAt_def
  getnum_def atoi_def commaOrPeriod_def fractionalSecond_def zoneISO8601Colon_def require_def
  Format_dateFormat_def appendInt_def decimal_ge10 digitChar_def mapIndex_def

lemma eventLocals_loopBody: "eventLocals e = Some l \<Longrightarrow> loopBody u e st = Some (checkSeen u l st)"
  by (cases "assertString (mapIndex e ''type'')")
     (auto simp: eventLocals_def loopBody_def split: bool.splits)

lemma formatEvents_classify:
  assumes "formatEvents u now es = Some r"
  shows "r = reportHead now
             @ concat (map entryLine (classify u (List.map_filter eventLocals es) {}))
             @ reportTail"
proof -
  from assms obtain st where st: "eventLoop u es (reportHead now, Map.empty) = Some st"
    and r: "r = fst st @ reportTail"
    by (auto simp: formatEvents_def split: bind_splits)
  from eventLoop_classify[OF st] r show ?thesis by (simp add: seenSet_empty)
qed


section \<open>Scenario A\<close>

lemma appendInt_two_digits:
  assumes "n < 100"
  shows "appendInt (int n) 2 = [''0123456789'' ! (n div 10), ''0123456789'' ! (n mod 10)]"
proof -
  have "n < 10 ^ 2" using assms by simp
  from fixedDigits_pad[OF this] have "appendInt (int n) 2 = fixedDigits 2 n"
    by (simp add: appendInt_def)
  moreover have "n div 10 mod 10 = n div 10" using assms by simp
  ultimately show ?thesis by (simp add: numeral_2_eq_2 digitChar_def)
qed

lemma appendInt_four_digits:
  assumes "n < 10000"
  shows "appendInt (int n) 4
         = [''0123456789'' ! (n div 1000), ''0123456789'' ! (n div 100 mod 10),
            ''0123456789'' ! (n div 10 mod 10), ''0123456789'' ! (n mod 10)]"
proof -
  have "n < 10 ^ 4" using assms by simp
  from fixedDigits_pad[OF this] have a: "appendInt (int n) 4 = fixedDigits 4 n"
    by (simp add: appendInt_def)
  have b: "fixedDigits 4 n
           = [digitChar (n div 10 div 10 div 10 mod 10), digitChar (n div 10 div 10 mod 10),
              digitChar (n div 10 mod 10), digitChar (n mod 10)]"
  proof -
    have four: "(4::nat) = Suc (Suc (Suc (Suc 0)))" by simp
    show ?thesis by (subst four) simp
  qed
  have c: "n div 100 div 10 = n div 1000" and d: "n div 10 div 10 = n div 100"
    by (simp_all add: div_mult2_eq[symmetric])
  have e: "n div 1000 mod 10 = n div 1000" using assms by simp
  have "fixedDigits 4 n
        = [digitChar (n div 1000 mod 10), digitChar (n div 100 mod 10),
           digitChar (n div 10 mod 10), digitChar (n mod 10)]"
    by (simp only: b c d)
  then show ?thesis by (simp add: a e digitChar_def)
qed

text \<open>
  C7. For the empty event list the report is exactly this text: the three-letter month
  name, a space, the day in two digits, a comma and a space, the year in four digits and
  a colon; the two fixed Done lines; \<^verbatim>\<open>Next:\<close> and the fixed closing line; each of the
  five lines ended by a newline, and no classified line. The clock \<open>now\<close> is any date of
  the years 0 to 9999, the years that have four digits.
\<close>

theorem formatEvents_empty:
  assumes "1 \<le> month now" and "month now \<le> 12" and "1 \<le> day now" and "day now \<le> 31"
      and "0 \<le> year now" and "year now \<le> 9999"
  shows "formatEvents username now [] =
     Some ([''Jan'', ''Feb'', ''Mar'', ''Apr'', ''May'', ''Jun'',
            ''Jul'', ''Aug'', ''Sep'', ''Oct'', ''Nov'', ''Dec''] ! (month now - 1)
           @ '' ''
           @ [''0123456789'' ! (day now div 10), ''0123456789'' ! (day now mod 10)]
           @ '', ''
           @ [''0123456789'' ! (nat (year now) div 1000),
              ''0123456789'' ! (nat (year now) div 100 mod 10),
              ''0123456789'' ! (nat (year now) div 10 mod 10),
              ''0123456789'' ! (nat (year now) mod 10)]
           @ '':'' @ [CHR 0x0A]
           @ [CHR 0xE2, CHR 0x80, CHR 0xA2] @ '' Done | Attended frail-check meeting''
           @ [CHR 0x0A]
           @ [CHR 0xE2, CHR 0x80, CHR 0xA2] @ '' Done | Attended frail-check followup meeting''
           @ [CHR 0x0A]
           @ ''Next:'' @ [CHR 0x0A]
           @ [CHR 0xE2, CHR 0x80, CHR 0xA2] @ '' Continue with assigned task and R&D''
           @ [CHR 0x0A])"
proof -
  have d: "appendInt (int (day now)) 2
           = [''0123456789'' ! (day now div 10), ''0123456789'' ! (day now mod 10)]"
    using assms(4) by (intro appendInt_two_digits) simp
  have "appendInt (int (nat (year now))) 4
        = [''0123456789'' ! (nat (year now) div 1000),
           ''0123456789'' ! (nat (year now) div 100 mod 10),
           ''0123456789'' ! (nat (year now) div 10 mod 10),
           ''0123456789'' ! (nat (year now) mod 10)]"
    using assms(6) by (intro appendInt_four_digits) simp
  then have y: "appendInt (year now) 4
        = [''0123456789'' ! (nat (year now) div 1000),
           ''0123456789'' ! (nat (year now) div 100 mod 10),
           ''0123456789'' ! (nat (year now) div 10 mod 10),
           ''0123456789'' ! (nat (year now) mod 10)]"
    using assms(5) by simp
  show ?thesis
    using assms(1,2)
    by (simp add: formatEvents_def reportHead_def reportTail_def Format_Jan_02_2006_def
          monthAbbrev_def shortMonthNames_def bullet_def newline_def d y)
qed

text \<open>On 2 January 2024: the text, and the text line by line.\<close>

theorem formatEvents_empty_witness:
  "formatEvents ''octocat'' jan02 []
   = Some (''Jan 02, 2024:'' @ [CHR 0x0A]
           @ [CHR 0xE2, CHR 0x80, CHR 0xA2] @ '' Done | Attended frail-check meeting''
           @ [CHR 0x0A]
           @ [CHR 0xE2, CHR 0x80, CHR 0xA2] @ '' Done | Attended frail-check followup meeting''
           @ [CHR 0x0A]
           @ ''Next:'' @ [CHR 0x0A]
           @ [CHR 0xE2, CHR 0x80, CHR 0xA2] @ '' Continue with assigned task and R&D''
           @ [CHR 0x0A])
   \<and> map_option splitLines (formatEvents ''octocat'' jan02 [])
     = Some [''Jan 02, 2024:'',
             [CHR 0xE2, CHR 0x80, CHR 0xA2] @ '' Done | Attended frail-check meeting'',
             [CHR 0xE2, CHR 0x80, CHR 0xA2] @ '' Done | Attended frail-check followup meeting'',
             ''Next:'',
             [CHR 0xE2, CHR 0x80, CHR 0xA2] @ '' Continue with assigned task and R&D'',
             []]"
proof -
  have "formatEvents ''octocat'' jan02 []
   = Some (''Jan 02, 2024:'' @ [CHR 0x0A]
           @ [CHR 0xE2, CHR 0x80, CHR 0xA2] @ '' Done | Attended frail-check meeting''
           @ [CHR 0x0A]
           @ [CHR 0xE2, CHR 0x80, CHR 0xA2] @ '' Done | Attended frail-check followup meeting''
           @ [CHR 0x0A]
           @ ''Next:'' @ [CHR 0x0A]
           @ [CHR 0xE2, CHR 0x80, CHR 0xA2] @ '' Continue with assigned task and R&D''
           @ [CHR 0x0A])"
    using formatEvents_empty[of jan02 "''octocat''"] by (simp add: jan02_def)
  then show ?thesis by simp
qed

section \<open>Panics\<close>

text \<open>
  A pull request event without \<^verbatim>\<open>payload\<close>, or whose pull request has no \<^verbatim>\<open>user\<close>
  object, ends the program in the one-result type assertion.
\<close>

lemma missing_payload_panics:
  "formatEvents username now [[''type'' \<mapsto> JString ''PullRequestEvent'']] = None"
  by (simp add: run_simps)

lemma missing_user_panics:
  "formatEvents username now
     [[''type'' \<mapsto> JString ''PullRequestEvent'',
       ''payload'' \<mapsto> JObject
         [''action'' \<mapsto> JString ''opened'',
          ''pull_request'' \<mapsto> JObject [''title'' \<mapsto> JString ''Add feature X'']]]] = None"
  by (simp add: run_simps)

section \<open>Priority of the rules\<close>

text \<open>
  C1. The switch assigns the status by the six rules as a strict priority chain. When an
  event satisfies rule \<open>k\<close> and none of the rules before it, its status is rule \<open>k\<close>'s,
  whichever of the rules \<open>k+1..6\<close> it satisfies as well, and for a title that is not
  empty and not yet seen the line appended carries that status. An event that satisfies
  no rule has the empty status. And for every two rules \<open>k < j\<close> that an event
  satisfies the status is rule \<open>k\<close>'s; the only events left out of this last sentence
  are those that satisfy rule 2 together with rule 1, whose status is rule 1's.
\<close>

theorem first_matching_rule_wins:
  "(1 \<le> k \<and> k \<le> 6 \<and> rule k u l \<and> (\<forall>i. 1 \<le> i \<and> i < k \<longrightarrow> \<not> rule i u l)
      \<longrightarrow> switchStatus u l = ruleStatus k
          \<and> (\<not> seenLookup seen (prTitle l) \<and> prTitle l \<noteq> [] \<longrightarrow>
                fst (checkSeen u l (rep, seen))
                = rep @ [CHR 0xE2, CHR 0x80, CHR 0xA2] @ '' '' @ ruleStatus k @ '' | ''
                      @ prTitle l @ [CHR 0x0A]))
   \<and> ((\<forall>i. 1 \<le> i \<and> i \<le> 6 \<longrightarrow> \<not> rule i u l) \<longrightarrow> switchStatus u l = [])
   \<and> (1 \<le> k \<and> k < j \<and> j \<le> 6 \<and> rule k u l \<and> rule j u l \<and> \<not> (k = 2 \<and> rule 1 u l)
      \<longrightarrow> switchStatus u l = ruleStatus k)"
proof -
  have first: "switchStatus u l = ruleStatus k \<and> ruleStatus k \<noteq> []"
    if "1 \<le> k" and "k \<le> 6" and rk: "rule k u l"
      and before: "\<forall>i. 1 \<le> i \<and> i < k \<longrightarrow> \<not> rule i u l"
  proof -
    have n1: "1 < k \<Longrightarrow> \<not> rule 1 u l" and n2: "2 < k \<Longrightarrow> \<not> rule 2 u l"
      and n3: "3 < k \<Longrightarrow> \<not> rule 3 u l" and n4: "4 < k \<Longrightarrow> \<not> rule 4 u l"
      and n5: "5 < k \<Longrightarrow> \<not> rule 5 u l"
      using before by auto
    from that(1,2) have ks: "k = 1 \<or> k = 2 \<or> k = 3 \<or> k = 4 \<or> k = 5 \<or> k = 6" by arith
    then have st: "switchStatus u l = ruleStatus k"
      using rk n1 n2 n3 n4 n5
      by (elim disjE) (simp_all add: rule_def switchStatus_def ruleStatus_def)
    from ks have "ruleStatus k \<noteq> []"
      by (elim disjE) (simp_all add: ruleStatus_def)
    with st show ?thesis by simp
  qed
  have line: "fst (checkSeen u l (rep, seen))
              = rep @ [CHR 0xE2, CHR 0x80, CHR 0xA2] @ '' '' @ ruleStatus k @ '' | ''
                    @ prTitle l @ [CHR 0x0A]"
    if "switchStatus u l = ruleStatus k" and "ruleStatus k \<noteq> []"
      and "\<not> seenLookup seen (prTitle l)" and "prTitle l \<noteq> []"
    using that by (simp add: checkSeen_def Let_def reportLine_def bullet_def newline_def)
  have none: "switchStatus u l = []" if "\<forall>i. 1 \<le> i \<and> i \<le> 6 \<longrightarrow> \<not> rule i u l"
  proof -
    from that have "\<not> rule 1 u l" and "\<not> rule 2 u l" and "\<not> rule 3 u l"
      and "\<not> rule 4 u l" and "\<not> rule 5 u l" and "\<not> rule 6 u l"
      by simp_all
    then show ?thesis by (simp add: rule_def switchStatus_def)
  qed
  have pair: "switchStatus u l = ruleStatus k"
    if "1 \<le> k" and "k < j" and "j \<le> 6" and rk: "rule k u l" and rj: "rule j u l"
      and ex: "\<not> (k = 2 \<and> rule 1 u l)"
  proof -
    from that(1,2,3) have ks: "k = 1 \<or> k = 2 \<or> k = 3 \<or> k = 4 \<or> k = 5" by arith
    then show ?thesis
      using rk ex
      by (elim disjE) (auto simp: rule_def switchStatus_def ruleStatus_def)
  qed
  show ?thesis using first line none pair by blast
qed

text \<open>
  An event that satisfies rules 1, 2 and 4 is \<^verbatim>\<open>Done\<close> by rule 1, never \<^verbatim>\<open>In Review\<close>; one
  that satisfies rules 5 and 6 is \<^verbatim>\<open>Reviewed and merged\<close> by rule 5; one that satisfies
  none has no status.
\<close>

theorem first_matching_rule_wins_witness:
  "rule 1 ''octocat''
     \<lparr>prTitle = ''Add feature X'', action = ''opened'', author = ''octocat'', merged = True\<rparr>
   \<and> rule 2 ''octocat''
     \<lparr>prTitle = ''Add feature X'', action = ''opened'', author = ''octocat'', merged = True\<rparr>
   \<and> rule 4 ''octocat''
     \<lparr>prTitle = ''Add feature X'', action = ''opened'', author = ''octocat'', merged = True\<rparr>
   \<and> switchStatus ''octocat''
     \<lparr>prTitle = ''Add feature X'', action = ''opened'', author = ''octocat'', merged = True\<rparr>
       = ''Done''
   \<and> fst (checkSeen ''octocat''
     \<lparr>prTitle = ''Add feature X'', action = ''opened'', author = ''octocat'', merged = True\<rparr>
     ([], Map.empty))
       = [CHR 0xE2, CHR 0x80, CHR 0xA2] @ '' Done | Add feature X'' @ [CHR 0x0A]
   \<and> rule 5 ''octocat''
     \<lparr>prTitle = ''Fix bug Y'', action = ''closed'', author = ''hubot'', merged = True\<rparr>
   \<and> rule 6 ''octocat''
     \<lparr>prTitle = ''Fix bug Y'', action = ''closed'', author = ''hubot'', merged = True\<rparr>
   \<and> switchStatus ''octocat''
     \<lparr>prTitle = ''Fix bug Y'', action = ''closed'', author = ''hubot'', merged = True\<rparr>
       = ''Reviewed and merged''
   \<and> switchStatus ''octocat''
     \<lparr>prTitle = ''Refactor Z'', action = ''reopened'', author = ''octocat'', merged = False\<rparr>
       = []"
proof -
  let ?x = "\<lparr>prTitle = ''Add feature X'', action = ''opened'', author = ''octocat'', merged = True\<rparr>"
  let ?y = "\<lparr>prTitle = ''Fix bug Y'', action = ''closed'', author = ''hubot'', merged = True\<rparr>"
  let ?z = "\<lparr>prTitle = ''Refactor Z'', action = ''reopened'', author = ''octocat'', merged = False\<rparr>"
  have x1: "rule 1 ''octocat'' ?x" and x2: "rule 2 ''octocat'' ?x" and x4: "rule 4 ''octocat'' ?x"
    by (simp_all add: rule_def)
  have y5: "rule 5 ''octocat'' ?y" and y6: "rule 6 ''octocat'' ?y" by (simp_all add: rule_def)
  have x0: "\<forall>i. 1 \<le> i \<and> i < (1::nat) \<longrightarrow> \<not> rule i ''octocat'' ?x" by simp
  have y0: "\<forall>i. 1 \<le> i \<and> i < (5::nat) \<longrightarrow> \<not> rule i ''octocat'' ?y" by (simp add: rule_def)
  have z0: "\<forall>i. 1 \<le> i \<and> i \<le> (6::nat) \<longrightarrow> \<not> rule i ''octocat'' ?z" by (simp add: rule_def)
  have sx: "\<not> seenLookup Map.empty (prTitle ?x) \<and> prTitle ?x \<noteq> []" by (simp add: seenLookup_def)
  have a: "switchStatus ''octocat'' ?x = ruleStatus 1
           \<and> (\<not> seenLookup Map.empty (prTitle ?x) \<and> prTitle ?x \<noteq> [] \<longrightarrow>
                fst (checkSeen ''octocat'' ?x ([], Map.empty))
                = [] @ [CHR 0xE2, CHR 0x80, CHR 0xA2] @ '' '' @ ruleStatus 1 @ '' | ''
                     @ prTitle ?x @ [CHR 0x0A])"
    by (rule first_matching_rule_wins[where k = 1 and u = "''octocat''" and l = ?x
          and seen = Map.empty and rep = "[]", THEN conjunct1, THEN mp])
       (intro conjI x1 x0, simp_all)
  have a': "fst (checkSeen ''octocat'' ?x ([], Map.empty))
            = [CHR 0xE2, CHR 0x80, CHR 0xA2] @ '' Done | Add feature X'' @ [CHR 0x0A]"
    using a sx by (simp add: ruleStatus_def)
  have b: "switchStatus ''octocat'' ?y = ruleStatus 5"
    by (rule first_matching_rule_wins[where k = 5 and u = "''octocat''" and l = ?y,
          THEN conjunct1, THEN mp, THEN conjunct1])
       (intro conjI y5 y0, simp_all)
  have c: "switchStatus ''octocat'' ?z = []"
    by (rule first_matching_rule_wins[where u = "''octocat''" and l = ?z,
          THEN conjunct2, THEN conjunct1, THEN mp])
       (rule z0)
  show ?thesis using a a' b c x1 x2 x4 y5 y6 by (simp add: ruleStatus_def)
qed

section \<open>One line per title\<close>

text \<open>
  Over the whole report the sentence of C2 fails: the two fixed lines are never entered
  in \<^verbatim>\<open>seenTitles\<close>, so a merged pull request of the user that is titled like the first
  of them gives the report that line twice.
\<close>

theorem boilerplate_title_repeated_counterexample:
  "map_option splitLines
     (formatEvents ''octocat'' jan02
        [pullRequestEvent ''2024-01-02T10:00:00Z'' ''opened'' True
           ''Attended frail-check meeting'' ''octocat''])
   = Some [''Jan 02, 2024:'',
           bullet @ '' Done | Attended frail-check meeting'',
           bullet @ '' Done | Attended frail-check followup meeting'',
           bullet @ '' Done | Attended frail-check meeting'',
           ''Next:'',
           bullet @ '' Continue with assigned task and R&D'',
           '''']
   \<and> map_option (distinct \<circ> splitLines)
     (formatEvents ''octocat'' jan02
        [pullRequestEvent ''2024-01-02T10:00:00Z'' ''opened'' True
           ''Attended frail-check meeting'' ''octocat''])
   = Some False"
  by (simp add: run_simps text_simps pullRequestEvent_def)

text \<open>
  C2, as amended. Between the fixed head and the fixed closing block the report is the
  lines of the classified entries, in order; no two of these entries have the same
  title; and the status of an entry is the one computed from the first event, in input
  order, whose extracted title is the entry's title.
\<close>

theorem classified_titles_distinct:
  assumes "formatEvents u now es = Some r"
  shows "r = reportHead now
             @ concat (map entryLine (classify u (List.map_filter eventLocals es) {}))
             @ reportTail
         \<and> distinct (map snd (classify u (List.map_filter eventLocals es) {}))
         \<and> (\<forall>(s, t) \<in> set (classify u (List.map_filter eventLocals es) {}).
              \<exists>l. find (\<lambda>l. prTitle l = t) (List.map_filter eventLocals es) = Some l
                  \<and> s = switchStatus u l)"
  using formatEvents_classify[OF assms] classify_distinct classify_first by fast

text \<open>
  Two events for one pull request, opened in the morning and merged in the afternoon:
  one line, with the status of the first.
\<close>

theorem classified_titles_distinct_witness:
  "formatEvents ''octocat'' jan02
     [pullRequestEvent ''2024-01-02T09:00:00Z'' ''opened'' False ''Add feature X'' ''octocat'',
      pullRequestEvent ''2024-01-02T15:00:00Z'' ''closed'' True ''Add feature X'' ''octocat'']
   = Some (reportHead jan02 @ reportLine ''In Review'' ''Add feature X'' @ reportTail)
   \<and> classify ''octocat'' (List.map_filter eventLocals
        [pullRequestEvent ''2024-01-02T09:00:00Z'' ''opened'' False ''Add feature X'' ''octocat'',
         pullRequestEvent ''2024-01-02T15:00:00Z'' ''closed'' True ''Add feature X'' ''octocat'']) {}
     = [(''In Review'', ''Add feature X'')]
   \<and> distinct (map snd (classify ''octocat'' (List.map_filter eventLocals
        [pullRequestEvent ''2024-01-02T09:00:00Z'' ''opened'' False ''Add feature X'' ''octocat'',
         pullRequestEvent ''2024-01-02T15:00:00Z'' ''closed'' True ''Add feature X'' ''octocat'']) {}))"
proof -
  let ?es = "[pullRequestEvent ''2024-01-02T09:00:00Z'' ''opened'' False ''Add feature X'' ''octocat'',
      pullRequestEvent ''2024-01-02T15:00:00Z'' ''closed'' True ''Add feature X'' ''octocat'']"
  have h: "formatEvents ''octocat'' jan02 ?es
           = Some (reportHead jan02 @ reportLine ''In Review'' ''Add feature X'' @ reportTail)"
    by (simp add: run_simps pullRequestEvent_def)
  have c: "classify ''octocat'' (List.map_filter eventLocals ?es) {} = [(''In Review'', ''Add feature X'')]"
    by (simp add: run_simps pullRequestEvent_def)
  from classified_titles_distinct[OF h] h c show ?thesis by simp
qed

section \<open>An unseen title is consumed\<close>

text \<open>
  C3. For an event that reaches the seen-title check with a title not yet seen, the loop
  body appends the line made of the bullet, the status, the bar, the title and a
  newline when status and title are both non-empty, and appends nothing otherwise: the
  report changes exactly when both are non-empty. In both cases it marks the title
  seen. After that, and after any further events, an event with the same title leaves
  the report and the seen titles as they are, whatever status its own fields would give.
  An event that does not reach the check has no title: the loop body leaves the state as
  it is when the type is no string and panics otherwise.
\<close>

theorem unseen_title_consumed:
  "(eventLocals e = Some l \<and> \<not> seenLookup seen (prTitle l) \<longrightarrow>
      loopBody u e (rep, seen) =
        Some (if switchStatus u l \<noteq> [] \<and> prTitle l \<noteq> []
              then rep @ [CHR 0xE2, CHR 0x80, CHR 0xA2] @ '' '' @ switchStatus u l @ '' | ''
                       @ prTitle l @ [CHR 0x0A]
              else rep,
              seen(prTitle l \<mapsto> True))
      \<and> ((map_option fst (loopBody u e (rep, seen)) \<noteq> Some rep)
           = (switchStatus u l \<noteq> [] \<and> prTitle l \<noteq> []))
      \<and> (\<forall>es st' e' l'.
            eventLoop u (e # es) (rep, seen) = Some st'
            \<and> eventLocals e' = Some l' \<and> prTitle l' = prTitle l
            \<longrightarrow> loopBody u e' st' = Some st'))
   \<and> (eventLocals e = None \<longrightarrow>
        loopBody u e (rep, seen)
        = (if snd (assertString (mapIndex e ''type'')) then None else Some (rep, seen)))"
proof -
  let ?line = "[CHR 0xE2, CHR 0x80, CHR 0xA2] @ '' '' @ switchStatus u l @ '' | ''
               @ prTitle l @ [CHR 0x0A]"
  let ?st1 = "(if switchStatus u l \<noteq> [] \<and> prTitle l \<noteq> [] then rep @ ?line else rep,
               seen(prTitle l \<mapsto> True))"
  have step: "loopBody u e (rep, seen) = Some ?st1"
    if "eventLocals e = Some l" and "\<not> seenLookup seen (prTitle l)"
    using that
    by (simp add: eventLocals_loopBody checkSeen_def Let_def reportLine_def bullet_def
          newline_def)
  have changed: "(map_option fst (loopBody u e (rep, seen)) \<noteq> Some rep)
                 = (switchStatus u l \<noteq> [] \<and> prTitle l \<noteq> [])"
    if "eventLocals e = Some l" and "\<not> seenLookup seen (prTitle l)"
    by (simp add: step[OF that])
  have later: "loopBody u e' st' = Some st'"
    if l: "eventLocals e = Some l" and n: "\<not> seenLookup seen (prTitle l)"
      and run: "eventLoop u (e # es) (rep, seen) = Some st'"
      and e': "eventLocals e' = Some l'" and same: "prTitle l' = prTitle l"
    for es st' e' l'
  proof -
    obtain rep' seen' where st': "st' = (rep', seen')" by (cases st')
    from run step[OF l n] have "eventLoop u es ?st1 = Some (rep', seen')" by (simp add: st')
    then have "seenLookup seen' (prTitle l)"
      by (rule eventLoop_seen_mono[of u es _ "seen(prTitle l \<mapsto> True)" rep' seen'])
         (simp add: seenLookup_upd)
    then show ?thesis
      using e' same by (simp add: eventLocals_loopBody st' checkSeen_seen_skip)
  qed
  have skipped: "loopBody u e (rep, seen)
                 = (if snd (assertString (mapIndex e ''type'')) then None else Some (rep, seen))"
    if "eventLocals e = None"
    using that by (simp add: loopBody_cases)
  show ?thesis using step changed later skipped by blast
qed

text \<open>
  Scenario D: the first event for \<^verbatim>\<open>Refactor Z\<close> matches no rule, the second would be
  \<^verbatim>\<open>In Review\<close> on its own; together they give no line.
\<close>

theorem unseen_title_consumed_witness:
  "loopBody ''octocat''
     (pullRequestEvent ''2024-01-02T09:00:00Z'' ''reopened'' False ''Refactor Z'' ''octocat'')
     (reportHead jan02, Map.empty)
   = Some (reportHead jan02, [''Refactor Z'' \<mapsto> True])
   \<and> loopBody ''octocat''
     (pullRequestEvent ''2024-01-02T15:00:00Z'' ''opened'' False ''Refactor Z'' ''octocat'')
     (reportHead jan02, Map.empty)
   = Some (reportHead jan02 @ [CHR 0xE2, CHR 0x80, CHR 0xA2] @ '' In Review | Refactor Z''
             @ [CHR 0x0A],
           [''Refactor Z'' \<mapsto> True])
   \<and> formatEvents ''octocat'' jan02
       [pullRequestEvent ''2024-01-02T09:00:00Z'' ''reopened'' False ''Refactor Z'' ''octocat'',
        pullRequestEvent ''2024-01-02T15:00:00Z'' ''opened'' False ''Refactor Z'' ''octocat'']
     = Some (reportHead jan02 @ reportTail)
   \<and> formatEvents ''octocat'' jan02
       [pullRequestEvent ''2024-01-02T15:00:00Z'' ''opened'' False ''Refactor Z'' ''octocat'']
     = Some (reportHead jan02 @ [CHR 0xE2, CHR 0x80, CHR 0xA2] @ '' In Review | Refactor Z''
               @ [CHR 0x0A] @ reportTail)"
proof -
  let ?e = "pullRequestEvent ''2024-01-02T09:00:00Z'' ''reopened'' False ''Refactor Z'' ''octocat''"
  let ?l = "\<lparr>prTitle = ''Refactor Z'', action = ''reopened'', author = ''octocat'', merged = False\<rparr>"
  let ?e2 = "pullRequestEvent ''2024-01-02T15:00:00Z'' ''opened'' False ''Refactor Z'' ''octocat''"
  let ?l2 = "\<lparr>prTitle = ''Refactor Z'', action = ''opened'', author = ''octocat'', merged = False\<rparr>"
  have h1: "eventLocals ?e = Some ?l" by (simp add: run_simps pullRequestEvent_def)
  have h1': "eventLocals ?e2 = Some ?l2" by (simp add: run_simps pullRequestEvent_def)
  have h2: "\<not> seenLookup Map.empty ''Refactor Z''" by (simp add: seenLookup_def)
  have s: "switchStatus ''octocat'' ?l = []" by (simp add: switchStatus_def)
  have s2: "switchStatus ''octocat'' ?l2 = ''In Review''" by (simp add: switchStatus_def)
  have a: "loopBody ''octocat'' ?e (reportHead jan02, Map.empty)
           = Some (reportHead jan02, [''Refactor Z'' \<mapsto> True])"
    using unseen_title_consumed[where e = ?e and l = ?l and seen = Map.empty
            and u = "''octocat''" and rep = "reportHead jan02",
            THEN conjunct1, THEN mp, THEN conjunct1] h1 h2 s
    by simp
  have b: "loopBody ''octocat'' ?e2 (reportHead jan02, Map.empty)
           = Some (reportHead jan02 @ [CHR 0xE2, CHR 0x80, CHR 0xA2] @ '' In Review | Refactor Z''
                     @ [CHR 0x0A],
                   [''Refactor Z'' \<mapsto> True])"
    using unseen_title_consumed[where e = ?e2 and l = ?l2 and seen = Map.empty
            and u = "''octocat''" and rep = "reportHead jan02",
            THEN conjunct1, THEN mp, THEN conjunct1] h1' h2 s2
    by simp
  have c: "loopBody ''octocat'' ?e2 (reportHead jan02, [''Refactor Z'' \<mapsto> True])
           = Some (reportHead jan02, [''Refactor Z'' \<mapsto> True])"
    by (simp add: eventLocals_loopBody[OF h1'] checkSeen_def seenLookup_def)
  have "formatEvents ''octocat'' jan02 [?e, ?e2] = Some (reportHead jan02 @ reportTail)"
    by (simp add: formatEvents_def a c)
  moreover have "formatEvents ''octocat'' jan02 [?e2]
     = Some (reportHead jan02 @ [CHR 0xE2, CHR 0x80, CHR 0xA2] @ '' In Review | Refactor Z''
               @ [CHR 0x0A] @ reportTail)"
    by (simp add: formatEvents_def b)
  ultimately show ?thesis using a b by simp
qed

section \<open>The daily filter\<close>

text \<open>
  The sentence of C4 fails for a timestamp with an offset: 23:30 on 2 January at
  \<^verbatim>\<open>-05:00\<close> is 04:30 on 3 January in UTC, and the filter keeps the event for the date
  2 January and drops it for 3 January.
\<close>

theorem offset_timestamp_counterexample:
  "getDailyEvents ''2024-01-02''
     [pullRequestEvent ''2024-01-02T23:30:00-05:00'' ''opened'' False ''Add feature X'' ''octocat'']
   = [pullRequestEvent ''2024-01-02T23:30:00-05:00'' ''opened'' False ''Add feature X'' ''octocat'']
   \<and> map_option (Format_dateFormat \<circ> inUTC) (Parse_RFC3339 ''2024-01-02T23:30:00-05:00'')
     = Some ''2024-01-03''
   \<and> getDailyEvents ''2024-01-03''
     [pullRequestEvent ''2024-01-02T23:30:00-05:00'' ''opened'' False ''Add feature X'' ''octocat'']
   = []"
  by (simp add: getDailyEvents_def parse_simps pullRequestEvent_def inUTC_def nextDay_def)

text \<open>
  C4, as amended. For an event whose \<^verbatim>\<open>created_at\<close> is parsed by \<^verbatim>\<open>time.Parse\<close>, by
  either of its two parsers, the filter keeps the event exactly when the day of the
  timestamp as written, on its own wall clock, is the target date: the parsed time
  prints as the first ten characters of the string. For a timestamp at offset zero that
  day is the day in UTC.
\<close>

theorem daily_filter_by_written_day:
  assumes "mapIndex e ''created_at'' = JString s" and "Parse_RFC3339 s = Some t"
  shows "(e \<in> set (getDailyEvents date es)) = (e \<in> set es \<and> take 10 s = date)
         \<and> Format_dateFormat t = take 10 s
         \<and> (zoneOffset t = 0 \<longrightarrow> Format_dateFormat (inUTC t) = take 10 s)"
proof -
  note f = Parse_RFC3339_fields[OF assms(2)]
  have c: "createdOn date e = (take 10 s = date)"
    using assms f(1) by (simp add: createdOn_def)
  have z: "zoneOffset t = 0 \<Longrightarrow> Format_dateFormat (inUTC t) = take 10 s"
    using inUTC_zero_offset[OF f(2) f(3) f(4)] f(1) by simp
  show ?thesis using c f(1) z by (auto simp: getDailyEvents_filter)
qed

text \<open>
  An event of 2 January, 09:15 UTC, and one whose hour is written with one digit, which
  only the general parser reads: both are kept for the date 2 January.
\<close>

theorem daily_filter_by_written_day_witness:
  "pullRequestEvent ''2024-01-02T09:15:00Z'' ''opened'' False ''Add feature X'' ''octocat''
     \<in> set (getDailyEvents ''2024-01-02''
         [pushEvent ''2024-01-01T22:00:00Z'',
          pullRequestEvent ''2024-01-02T09:15:00Z'' ''opened'' False ''Add feature X'' ''octocat''])
   \<and> take 10 ''2024-01-02T09:15:00Z'' = ''2024-01-02''
   \<and> map_option (Format_dateFormat \<circ> inUTC) (Parse_RFC3339 ''2024-01-02T09:15:00Z'')
     = Some ''2024-01-02''
   \<and> pullRequestEvent ''2024-01-02T9:15:00Z'' ''opened'' False ''One digit hour'' ''octocat''
     \<in> set (getDailyEvents ''2024-01-02''
         [pullRequestEvent ''2024-01-02T9:15:00Z'' ''opened'' False ''One digit hour'' ''octocat''])
   \<and> map_option (Format_dateFormat \<circ> inUTC) (Parse_RFC3339 ''2024-01-02T9:15:00Z'')
     = Some ''2024-01-02''"
proof -
  let ?e = "pullRequestEvent ''2024-01-02T09:15:00Z'' ''opened'' False ''Add feature X'' ''octocat''"
  let ?g = "pullRequestEvent ''2024-01-02T9:15:00Z'' ''opened'' False ''One digit hour'' ''octocat''"
  let ?t = "\<lparr>year = 2024, month = 1, day = 2, hour = 9, minute = 15, second = 0,
             nsec = 0, zoneOffset = 0\<rparr>"
  have h1: "mapIndex ?e ''created_at'' = JString ''2024-01-02T09:15:00Z''"
    by (simp add: mapIndex_def pullRequestEvent_def)
  have h2: "Parse_RFC3339 ''2024-01-02T09:15:00Z'' = Some ?t"
    by (simp add: parse_simps)
  have g1: "mapIndex ?g ''created_at'' = JString ''2024-01-02T9:15:00Z''"
    by (simp add: mapIndex_def pullRequestEvent_def)
  have g2: "Parse_RFC3339 ''2024-01-02T9:15:00Z'' = Some ?t"
    by (simp add: parse_simps)
  have a: "?e \<in> set (getDailyEvents ''2024-01-02'' [pushEvent ''2024-01-01T22:00:00Z'', ?e])
           \<and> Format_dateFormat (inUTC ?t) = ''2024-01-02''"
    using daily_filter_by_written_day[OF h1 h2, of "''2024-01-02''"
         "[pushEvent ''2024-01-01T22:00:00Z'', ?e]"]
    by simp
  have b: "?g \<in> set (getDailyEvents ''2024-01-02'' [?g])"
    using daily_filter_by_written_day[OF g1 g2, of "''2024-01-02''" "[?g]"] by simp
  show ?thesis using a b by (simp add: h2 g2)
qed

text \<open>
  The spellings that only the general parser reads: an hour of one digit, a comma before
  the fraction, an offset of 24 hours, an offset with 60 minutes. Their events are daily
  events of the day written.
\<close>

lemma general_parser_spellings:
  "Parse_RFC3339 ''2024-01-02T9:00:00Z''
     = Some \<lparr>year = 2024, month = 1, day = 2, hour = 9, minute = 0, second = 0,
             nsec = 0, zoneOffset = 0\<rparr>
   \<and> Parse_RFC3339 ''2024-01-02T09:00:00,5Z''
     = Some \<lparr>year = 2024, month = 1, day = 2, hour = 9, minute = 0, second = 0,
             nsec = 500000000, zoneOffset = 0\<rparr>
   \<and> Parse_RFC3339 ''2024-01-02T09:00:00+24:00''
     = Some \<lparr>year = 2024, month = 1, day = 2, hour = 9, minute = 0, second = 0,
             nsec = 0, zoneOffset = 86400\<rparr>
   \<and> Parse_RFC3339 ''2024-01-02T09:00:00-05:60''
     = Some \<lparr>year = 2024, month = 1, day = 2, hour = 9, minute = 0, second = 0,
             nsec = 0, zoneOffset = - 21600\<rparr>"
  by (simp add: parse_simps)

lemma general_parser_events_kept:
  "getDailyEvents ''2024-01-02''
     [pullRequestEvent ''2024-01-02T9:00:00Z'' ''opened'' False ''One digit hour'' ''octocat'',
      pullRequestEvent ''2024-01-02T09:00:00,5Z'' ''opened'' False ''Comma'' ''octocat'',
      pullRequestEvent ''2024-01-02T09:00:00+24:00'' ''opened'' False ''Hour 24'' ''octocat'',
      pullRequestEvent ''2024-01-02T09:00:00-05:60'' ''opened'' False ''Minute 60'' ''octocat'']
   = [pullRequestEvent ''2024-01-02T9:00:00Z'' ''opened'' False ''One digit hour'' ''octocat'',
      pullRequestEvent ''2024-01-02T09:00:00,5Z'' ''opened'' False ''Comma'' ''octocat'',
      pullRequestEvent ''2024-01-02T09:00:00+24:00'' ''opened'' False ''Hour 24'' ''octocat'',
      pullRequestEvent ''2024-01-02T09:00:00-05:60'' ''opened'' False ''Minute 60'' ''octocat'']"
proof -
  have "createdOn ''2024-01-02''
          (pullRequestEvent ''2024-01-02T9:00:00Z'' ''opened'' False ''One digit hour'' ''octocat'')"
    by (simp add: parse_simps pullRequestEvent_def)
  moreover have "createdOn ''2024-01-02''
          (pullRequestEvent ''2024-01-02T09:00:00,5Z'' ''opened'' False ''Comma'' ''octocat'')"
    by (simp add: parse_simps pullRequestEvent_def)
  moreover have "createdOn ''2024-01-02''
          (pullRequestEvent ''2024-01-02T09:00:00+24:00'' ''opened'' False ''Hour 24'' ''octocat'')"
    by (simp add: parse_simps pullRequestEvent_def)
  moreover have "createdOn ''2024-01-02''
          (pullRequestEvent ''2024-01-02T09:00:00-05:60'' ''opened'' False ''Minute 60'' ''octocat'')"
    by (simp add: parse_simps pullRequestEvent_def)
  ultimately show ?thesis by (simp add: getDailyEvents_filter)
qed

lemma one_digit_hour_reported:
  "formatEvents ''octocat'' jan02
     (getDailyEvents ''2024-01-02''
        [pullRequestEvent ''2024-01-02T9:00:00Z'' ''opened'' False ''One digit hour'' ''octocat''])
   = Some (reportHead jan02 @ [CHR 0xE2, CHR 0x80, CHR 0xA2] @ '' In Review | One digit hour''
             @ [CHR 0x0A] @ reportTail)"
proof -
  let ?e = "pullRequestEvent ''2024-01-02T9:00:00Z'' ''opened'' False ''One digit hour'' ''octocat''"
  have c: "createdOn ''2024-01-02'' ?e" by (simp add: parse_simps pullRequestEvent_def)
  have l: "eventLocals ?e = Some \<lparr>prTitle = ''One digit hour'', action = ''opened'',
                                   author = ''octocat'', merged = False\<rparr>"
    by (simp add: run_simps pullRequestEvent_def)
  show ?thesis
    by (simp add: getDailyEvents_filter c formatEvents_def eventLocals_loopBody l checkSeen_def
          seenLookup_def switchStatus_def reportLine_def bullet_def newline_def Let_def)
qed

section \<open>Order\<close>

text \<open>
  C5. The daily events are the input events that pass the test, in their original order
  and each as often as it occurs in the input; and the titles of the classified lines
  of the report, in the order of the lines, are a subsequence of the titles of the
  daily events in the order of first occurrence.
\<close>

theorem order_preserved:
  "getDailyEvents date events = filter (createdOn date) events
   \<and> subseq (getDailyEvents date events) events
   \<and> (\<forall>r. formatEvents u now (getDailyEvents date events) = Some r \<longrightarrow>
         r = reportHead now
             @ concat (map entryLine
                 (classify u (List.map_filter eventLocals (getDailyEvents date events)) {}))
             @ reportTail
         \<and> subseq (map snd (classify u (List.map_filter eventLocals (getDailyEvents date events)) {}))
                  (firstSeen {} (map prTitle (List.map_filter eventLocals (getDailyEvents date events))))
         \<and> distinct (firstSeen {} (map prTitle (List.map_filter eventLocals (getDailyEvents date events)))))"
proof -
  have a: "getDailyEvents date events = filter (createdOn date) events"
    by (rule getDailyEvents_filter)
  have b: "subseq (getDailyEvents date events) events"
    by (simp add: a)
  show ?thesis
    using a b formatEvents_classify classify_subseq_firstSeen firstSeen_distinct by blast
qed

text \<open>
  Five events, one of them of the day before and two for the same title.
\<close>

theorem order_preserved_witness:
  "getDailyEvents ''2024-01-02''
     [pullRequestEvent ''2024-01-02T08:00:00Z'' ''opened'' False ''Beta'' ''octocat'',
      pushEvent ''2024-01-02T09:00:00Z'',
      pullRequestEvent ''2024-01-01T23:00:00Z'' ''opened'' False ''Gamma'' ''octocat'',
      pullRequestEvent ''2024-01-02T10:00:00Z'' ''closed'' True ''Alpha'' ''hubot'',
      pullRequestEvent ''2024-01-02T11:00:00Z'' ''closed'' True ''Beta'' ''octocat'']
   = [pullRequestEvent ''2024-01-02T08:00:00Z'' ''opened'' False ''Beta'' ''octocat'',
      pushEvent ''2024-01-02T09:00:00Z'',
      pullRequestEvent ''2024-01-02T10:00:00Z'' ''closed'' True ''Alpha'' ''hubot'',
      pullRequestEvent ''2024-01-02T11:00:00Z'' ''closed'' True ''Beta'' ''octocat'']
   \<and> formatEvents ''octocat'' jan02
       (getDailyEvents ''2024-01-02''
         [pullRequestEvent ''2024-01-02T08:00:00Z'' ''opened'' False ''Beta'' ''octocat'',
          pushEvent ''2024-01-02T09:00:00Z'',
          pullRequestEvent ''2024-01-01T23:00:00Z'' ''opened'' False ''Gamma'' ''octocat'',
          pullRequestEvent ''2024-01-02T10:00:00Z'' ''closed'' True ''Alpha'' ''hubot'',
          pullRequestEvent ''2024-01-02T11:00:00Z'' ''closed'' True ''Beta'' ''octocat''])
     = Some (reportHead jan02 @ reportLine ''In Review'' ''Beta''
               @ reportLine ''Reviewed and merged'' ''Alpha'' @ reportTail)
   \<and> subseq [''Beta'', ''Alpha''] (firstSeen {} [''Beta'', [], ''Alpha'', ''Beta''])"
proof -
  let ?e1 = "pullRequestEvent ''2024-01-02T08:00:00Z'' ''opened'' False ''Beta'' ''octocat''"
  let ?e2 = "pushEvent ''2024-01-02T09:00:00Z''"
  let ?e3 = "pullRequestEvent ''2024-01-01T23:00:00Z'' ''opened'' False ''Gamma'' ''octocat''"
  let ?e4 = "pullRequestEvent ''2024-01-02T10:00:00Z'' ''closed'' True ''Alpha'' ''hubot''"
  let ?e5 = "pullRequestEvent ''2024-01-02T11:00:00Z'' ''closed'' True ''Beta'' ''octocat''"
  let ?all = "[?e1, ?e2, ?e3, ?e4, ?e5]"
  let ?kept = "[?e1, ?e2, ?e4, ?e5]"
  have c1: "createdOn ''2024-01-02'' ?e1" by (simp add: parse_simps pullRequestEvent_def)
  have c2: "createdOn ''2024-01-02'' ?e2" by (simp add: parse_simps pushEvent_def)
  have c3: "\<not> createdOn ''2024-01-02'' ?e3" by (simp add: parse_simps pullRequestEvent_def)
  have c4: "createdOn ''2024-01-02'' ?e4" by (simp add: parse_simps pullRequestEvent_def)
  have c5: "createdOn ''2024-01-02'' ?e5" by (simp add: parse_simps pullRequestEvent_def)
  have l1: "eventLocals ?e1 = Some \<lparr>prTitle = ''Beta'', action = ''opened'', author = ''octocat'', merged = False\<rparr>"
    by (simp add: run_simps pullRequestEvent_def)
  have l2: "eventLocals ?e2 = Some \<lparr>prTitle = [], action = [], author = [], merged = False\<rparr>"
    by (simp add: run_simps pushEvent_def)
  have l4: "eventLocals ?e4 = Some \<lparr>prTitle = ''Alpha'', action = ''closed'', author = ''hubot'', merged = True\<rparr>"
    by (simp add: run_simps pullRequestEvent_def)
  have l5: "eventLocals ?e5 = Some \<lparr>prTitle = ''Beta'', action = ''closed'', author = ''octocat'', merged = True\<rparr>"
    by (simp add: run_simps pullRequestEvent_def)
  from order_preserved[of "''2024-01-02''" ?all "''octocat''" jan02]
  have k: "getDailyEvents ''2024-01-02'' ?all = ?kept"
    by (simp add: c1 c2 c3 c4 c5)
  have r: "formatEvents ''octocat'' jan02 ?kept
           = Some (reportHead jan02 @ reportLine ''In Review'' ''Beta''
               @ reportLine ''Reviewed and merged'' ''Alpha'' @ reportTail)"
    by (simp add: formatEvents_def eventLocals_loopBody l1 l2 l4 l5 checkSeen_def seenLookup_def
          switchStatus_def Let_def)
  have s: "subseq [''Beta'', ''Alpha''] (firstSeen {} [''Beta'', [], ''Alpha'', ''Beta''])"
    by simp
  show ?thesis using k r s by simp
qed

section \<open>Scenario C\<close>

text \<open>
  C6. A single \<^verbatim>\<open>PullRequestEvent\<close> with action \<^verbatim>\<open>closed\<close>, not merged, by an author
  other than the user, titled \<^verbatim>\<open>Fix bug Y\<close>, gives the report the line
  \<^verbatim>\<open>Reviewed | Fix bug Y\<close> after the fixed head: rule 5 does not hold, rule 6 does.
\<close>

theorem closed_unmerged_by_other_is_reviewed:
  assumes "mapIndex e ''type'' = JString ''PullRequestEvent''"
      and "pullRequestEventArm e
           = Some \<lparr>prTitle = ''Fix bug Y'', action = ''closed'', author = a, merged = False\<rparr>"
      and "a \<noteq> u"
  shows "formatEvents u now [e]
           = Some (reportHead now @ bullet @ '' Reviewed | Fix bug Y'' @ newline @ reportTail)
         \<and> \<not> rule 5 u \<lparr>prTitle = ''Fix bug Y'', action = ''closed'', author = a, merged = False\<rparr>
         \<and> rule 6 u \<lparr>prTitle = ''Fix bug Y'', action = ''closed'', author = a, merged = False\<rparr>"
  using assms
  by (simp add: formatEvents_def loopBody_def switchEventType_def checkSeen_def seenLookup_def
        switchStatus_def reportLine_def rule_def Let_def)

text \<open>
  The whole report of that scenario, line by line.
\<close>

theorem closed_unmerged_by_other_is_reviewed_witness:
  "map_option splitLines
     (formatEvents ''octocat'' jan02
        [pullRequestEvent ''2024-01-02T10:00:00Z'' ''closed'' False ''Fix bug Y'' ''hubot''])
   = Some [''Jan 02, 2024:'',
           bullet @ '' Done | Attended frail-check meeting'',
           bullet @ '' Done | Attended frail-check followup meeting'',
           bullet @ '' Reviewed | Fix bug Y'',
           ''Next:'',
           bullet @ '' Continue with assigned task and R&D'',
           '''']"
proof -
  let ?e = "pullRequestEvent ''2024-01-02T10:00:00Z'' ''closed'' False ''Fix bug Y'' ''hubot''"
  have h1: "mapIndex ?e ''type'' = JString ''PullRequestEvent''"
    by (simp add: mapIndex_def pullRequestEvent_def)
  have h2: "pullRequestEventArm ?e
            = Some \<lparr>prTitle = ''Fix bug Y'', action = ''closed'', author = ''hubot'', merged = False\<rparr>"
    by (simp add: pullRequestEventArm_def mapIndex_def pullRequestEvent_def)
  have h3: "''hubot'' \<noteq> ''octocat''" by simp
  from closed_unmerged_by_other_is_reviewed[OF h1 h2 h3, of jan02]
  have "formatEvents ''octocat'' jan02 [?e]
        = Some (reportHead jan02 @ bullet @ '' Reviewed | Fix bug Y'' @ newline @ reportTail)"
    by simp
  then show ?thesis by (simp add: text_simps)
qed

section \<open>Events that are skipped\<close>

text \<open>
  C8. An event whose \<^verbatim>\<open>created_at\<close> is missing or no string, or is refused by
  \<^verbatim>\<open>time.Parse\<close>, or whose type is neither \<^verbatim>\<open>PullRequestEvent\<close> nor \<^verbatim>\<open>PullRequestReviewEvent\<close>, changes nothing:
  with it or without it in the input, filtering and formatting give the same result,
  report or panic alike. In the first two cases the event is not among the daily
  events; in the third the loop body returns with the report unchanged.
\<close>

theorem silently_skipped:
  assumes "\<not> snd (assertString (mapIndex e ''created_at''))
           \<or> Parse_RFC3339 (fst (assertString (mapIndex e ''created_at''))) = None
           \<or> (mapIndex e ''type'' \<noteq> JString ''PullRequestEvent''
              \<and> mapIndex e ''type'' \<noteq> JString ''PullRequestReviewEvent'')"
  shows "formatEvents u now (getDailyEvents date (es1 @ e # es2))
           = formatEvents u now (getDailyEvents date (es1 @ es2))
         \<and> (\<not> snd (assertString (mapIndex e ''created_at''))
              \<or> Parse_RFC3339 (fst (assertString (mapIndex e ''created_at''))) = None
            \<longrightarrow> e \<notin> set (getDailyEvents date es))
         \<and> (mapIndex e ''type'' \<noteq> JString ''PullRequestEvent''
              \<and> mapIndex e ''type'' \<noteq> JString ''PullRequestReviewEvent''
            \<longrightarrow> (\<exists>seen'. loopBody u e (rep, seen) = Some (rep, seen')))"
proof -
  have nodate: "\<not> createdOn date e"
    if "\<not> snd (assertString (mapIndex e ''created_at''))
        \<or> Parse_RFC3339 (fst (assertString (mapIndex e ''created_at''))) = None"
    using that by (cases "assertString (mapIndex e ''created_at'')")
      (auto simp: createdOn_def split: bool.splits)
  have other: "formatEvents u now (xs @ e # ys) = formatEvents u now (xs @ ys)
               \<and> (\<exists>seen'. loopBody u e (rep, seen) = Some (rep, seen'))"
    if t: "mapIndex e ''type'' \<noteq> JString ''PullRequestEvent''
           \<and> mapIndex e ''type'' \<noteq> JString ''PullRequestReviewEvent''"
    for xs ys
  proof -
    have "\<exists>seen'. loopBody u e (rep, seen) = Some (rep, seen')"
    proof (cases "mapIndex e ''type''")
      case (JString ty)
      then have "loopBody u e (rep, seen)
                 = Some (checkSeen u \<lparr>prTitle = [], action = [], author = [], merged = False\<rparr> (rep, seen))"
        using t by (simp add: loopBody_def switchEventType_def)
      then show ?thesis using checkSeen_zero[of u rep seen]
        by (cases "checkSeen u \<lparr>prTitle = [], action = [], author = [], merged = False\<rparr> (rep, seen)") simp
    qed (simp_all add: loopBody_def)
    then show ?thesis using formatEvents_drop_other[of e u now xs ys] t by simp
  qed
  have main: "formatEvents u now (getDailyEvents date (es1 @ e # es2))
              = formatEvents u now (getDailyEvents date (es1 @ es2))"
  proof (cases "createdOn date e")
    case False
    then show ?thesis by (simp add: getDailyEvents_filter)
  next
    case True
    then have "mapIndex e ''type'' \<noteq> JString ''PullRequestEvent''
               \<and> mapIndex e ''type'' \<noteq> JString ''PullRequestReviewEvent''"
      using assms nodate by blast
    from other[OF this] True show ?thesis by (simp add: getDailyEvents_filter)
  qed
  show ?thesis using main nodate other by (auto simp: getDailyEvents_filter)
qed

text \<open>
  An event without \<^verbatim>\<open>created_at\<close>, one with a date that does not parse and a push
  event, each in front of one pull request event.
\<close>

theorem silently_skipped_witness:
  "formatEvents ''octocat'' jan02
     (getDailyEvents ''2024-01-02''
        [(pullRequestEvent ''2024-01-02T08:00:00Z'' ''opened'' True ''No date'' ''octocat'')
           (''created_at'' := None),
         pullRequestEvent ''2024-01-02T09:00:00Z'' ''opened'' False ''Add feature X'' ''octocat''])
   = formatEvents ''octocat'' jan02
     (getDailyEvents ''2024-01-02''
        [pullRequestEvent ''2024-01-02T09:00:00Z'' ''opened'' False ''Add feature X'' ''octocat''])
   \<and> formatEvents ''octocat'' jan02
     (getDailyEvents ''2024-01-02''
        [pullRequestEvent ''2024-01-02 08:00:00'' ''opened'' True ''Bad date'' ''octocat'',
         pullRequestEvent ''2024-01-02T09:00:00Z'' ''opened'' False ''Add feature X'' ''octocat''])
   = formatEvents ''octocat'' jan02
     (getDailyEvents ''2024-01-02''
        [pullRequestEvent ''2024-01-02T09:00:00Z'' ''opened'' False ''Add feature X'' ''octocat''])
   \<and> formatEvents ''octocat'' jan02
     (getDailyEvents ''2024-01-02''
        [pushEvent ''2024-01-02T08:00:00Z'',
         pullRequestEvent ''2024-01-02T09:00:00Z'' ''opened'' False ''Add feature X'' ''octocat''])
   = formatEvents ''octocat'' jan02
     (getDailyEvents ''2024-01-02''
        [pullRequestEvent ''2024-01-02T09:00:00Z'' ''opened'' False ''Add feature X'' ''octocat''])
   \<and> formatEvents ''octocat'' jan02
     (getDailyEvents ''2024-01-02''
        [pullRequestEvent ''2024-01-02T09:00:00Z'' ''opened'' False ''Add feature X'' ''octocat''])
   = Some (reportHead jan02 @ reportLine ''In Review'' ''Add feature X'' @ reportTail)"
proof -
  let ?pr = "pullRequestEvent ''2024-01-02T09:00:00Z'' ''opened'' False ''Add feature X'' ''octocat''"
  let ?a = "(pullRequestEvent ''2024-01-02T08:00:00Z'' ''opened'' True ''No date'' ''octocat'')
              (''created_at'' := None)"
  let ?b = "pullRequestEvent ''2024-01-02 08:00:00'' ''opened'' True ''Bad date'' ''octocat''"
  let ?c = "pushEvent ''2024-01-02T08:00:00Z''"
  have ha: "\<not> snd (assertString (mapIndex ?a ''created_at''))"
    by (simp add: mapIndex_def)
  have hb: "Parse_RFC3339 (fst (assertString (mapIndex ?b ''created_at''))) = None"
    by (simp add: parse_simps pullRequestEvent_def)
  have hc: "mapIndex ?c ''type'' \<noteq> JString ''PullRequestEvent''
            \<and> mapIndex ?c ''type'' \<noteq> JString ''PullRequestReviewEvent''"
    by (simp add: mapIndex_def pushEvent_def)
  have a: "formatEvents ''octocat'' jan02 (getDailyEvents ''2024-01-02'' [?a, ?pr])
           = formatEvents ''octocat'' jan02 (getDailyEvents ''2024-01-02'' [?pr])"
    using silently_skipped[of ?a "''octocat''" jan02 "''2024-01-02''" "[]" "[?pr]"] ha by simp
  have b: "formatEvents ''octocat'' jan02 (getDailyEvents ''2024-01-02'' [?b, ?pr])
           = formatEvents ''octocat'' jan02 (getDailyEvents ''2024-01-02'' [?pr])"
    using silently_skipped[of ?b "''octocat''" jan02 "''2024-01-02''" "[]" "[?pr]"] hb by simp
  have c: "formatEvents ''octocat'' jan02 (getDailyEvents ''2024-01-02'' [?c, ?pr])
           = formatEvents ''octocat'' jan02 (getDailyEvents ''2024-01-02'' [?pr])"
    using silently_skipped[of ?c "''octocat''" jan02 "''2024-01-02''" "[]" "[?pr]"] hc by simp
  have d: "createdOn ''2024-01-02'' ?pr" by (simp add: parse_simps pullRequestEvent_def)
  have l: "eventLocals ?pr = Some \<lparr>prTitle = ''Add feature X'', action = ''opened'', author = ''octocat'', merged = False\<rparr>"
    by (simp add: run_simps pullRequestEvent_def)
  have r: "formatEvents ''octocat'' jan02 (getDailyEvents ''2024-01-02'' [?pr])
           = Some (reportHead jan02 @ reportLine ''In Review'' ''Add feature X'' @ reportTail)"
    by (simp add: getDailyEvents_filter d formatEvents_def eventLocals_loopBody l checkSeen_def
          seenLookup_def switchStatus_def Let_def)
  show ?thesis using a b c r by simp
qed

section \<open>The reference classifier\<close>

text \<open>
  C9. The program, in which an event of another type falls through the \<^verbatim>\<open>switch\<close> and
  marks the empty title seen, and the reference, which skips such an event before the
  seen-title check, give the same result for every list of events.
\<close>

theorem formatEvents_refines_reference:
  "formatEvents username now events = formatEventsRef username now events"
  by (rule formatEvents_Ref_aux)

text \<open>
  The two do differ in the seen titles they keep.
\<close>

lemma other_type_marks_empty_title:
  "loopBody ''octocat'' (pushEvent ''2024-01-02T08:00:00Z'') (rep, Map.empty) = Some (rep, [[] \<mapsto> True])
   \<and> loopBodyRef ''octocat'' (pushEvent ''2024-01-02T08:00:00Z'') (rep, Map.empty) = Some (rep, Map.empty)"
  by (simp add: run_simps loopBodyRef_def pushEvent_def)

section \<open>An empty user name\<close>



end
